theory Spec2Isabelle
  imports Main
begin

section \<open>Text, characters and the runtime tables\<close>

text \<open>
  A Python \<open>str\<close> is a sequence of Unicode code points; it is modelled as a list of
  natural numbers.  Literals of the program are written as HOL strings and converted by
  \<open>ustr\<close> (every literal used that way is ASCII; the Czech letters of the patterns are
  given by their code points).
\<close>

type_synonym ustring = "nat list"

definition ustr :: "string \<Rightarrow> ustring" where
  "ustr s = map of_char s"

text \<open>
  What CPython and its libraries decide from tables that are not part of the repository
  is a field of the record \<open>runtime\<close>: the Unicode database outside ASCII (decimal digits,
  alphanumerics, case mappings), the table of \<open>unidecode\<close>, and whether the C library
  pads \<open>%Y\<close> to four digits (glibc does not, other platforms do).  On ASCII code points
  every function below is fixed by the model itself and never consults the record.
\<close>

record runtime =
  uc_decimal :: "nat \<Rightarrow> nat option"
  uc_alnum :: "nat \<Rightarrow> bool"
  uc_upper :: "nat \<Rightarrow> ustring"
  uc_lower :: "nat \<Rightarrow> ustring"
  uc_title :: "nat \<Rightarrow> ustring"
  uc_translit :: "nat \<Rightarrow> ustring"
  year_padded :: bool

definition ascii_digit :: "nat \<Rightarrow> bool" where
  "ascii_digit c = (48 \<le> c \<and> c \<le> 57)"

definition ascii_upper :: "nat \<Rightarrow> bool" where
  "ascii_upper c = (65 \<le> c \<and> c \<le> 90)"

definition ascii_lower :: "nat \<Rightarrow> bool" where
  "ascii_lower c = (97 \<le> c \<and> c \<le> 122)"

definition ascii_alnum :: "nat \<Rightarrow> bool" where
  "ascii_alnum c = (ascii_digit c \<or> ascii_upper c \<or> ascii_lower c)"

text \<open>\<open>\d\<close> of a \<open>str\<close> pattern: a Unicode decimal digit.\<close>

definition is_digit :: "runtime \<Rightarrow> nat \<Rightarrow> bool" where
  "is_digit U c = (if c < 128 then ascii_digit c else uc_decimal U c \<noteq> None)"

definition digit_val :: "runtime \<Rightarrow> nat \<Rightarrow> nat" where
  "digit_val U c = (if c < 128 then c - 48 else (case uc_decimal U c of Some v \<Rightarrow> v | None \<Rightarrow> 0))"

text \<open>\<open>\w\<close>: alphanumeric in the Unicode database, or the underscore.\<close>

definition is_word :: "runtime \<Rightarrow> nat \<Rightarrow> bool" where
  "is_word U c = (if c < 128 then ascii_alnum c \<or> c = 95
                  else uc_alnum U c \<or> uc_decimal U c \<noteq> None)"

text \<open>\<open>\s\<close>, \<open>str.strip()\<close> and \<open>str.split()\<close>: the Unicode whitespace of CPython.\<close>

definition is_space :: "nat \<Rightarrow> bool" where
  "is_space c = ((9 \<le> c \<and> c \<le> 13) \<or> (28 \<le> c \<and> c \<le> 32) \<or> c = 133 \<or> c = 160
     \<or> c = 5760 \<or> (8192 \<le> c \<and> c \<le> 8202) \<or> c = 8232 \<or> c = 8233 \<or> c = 8239
     \<or> c = 8287 \<or> c = 12288)"

text \<open>\<open>int(x)\<close> on a run of decimal digits.\<close>

definition int_of_digits :: "runtime \<Rightarrow> ustring \<Rightarrow> nat" where
  "int_of_digits U ds = foldl (\<lambda>a c. 10 * a + digit_val U c) 0 ds"

definition strip_chars :: "(nat \<Rightarrow> bool) \<Rightarrow> ustring \<Rightarrow> ustring" where
  "strip_chars p s = rev (dropWhile p (rev (dropWhile p s)))"

definition rstrip_chars :: "(nat \<Rightarrow> bool) \<Rightarrow> ustring \<Rightarrow> ustring" where
  "rstrip_chars p s = rev (dropWhile p (rev s))"

definition strip :: "ustring \<Rightarrow> ustring" where
  "strip s = strip_chars is_space s"

section \<open>Regular expressions of the \<open>re\<close> module\<close>

text \<open>
  The patterns of the program use character classes, greedy repetition of a character
  class, concatenation, alternation (an optional group is an alternation with the empty
  pattern, the group tried first), capturing groups, \<open>\b\<close> and \<open>^\<close>.  The matcher is the
  backtracking matcher of \<open>re\<close>: from a position it lists every way to match, in the order
  in which backtracking tries them; \<open>re\<close> takes the first.  A position is the character
  before it (if any), the text from it on, and the groups captured so far.
\<close>

datatype regex =
    Cls "nat \<Rightarrow> bool"
  | Eps
  | Seq regex regex
  | Alt regex regex
  | Rep nat "nat option" "nat \<Rightarrow> bool"
  | Grp nat regex
  | WordB "nat \<Rightarrow> bool"
  | Bol

type_synonym mstate = "nat option \<times> ustring \<times> (nat \<times> ustring) list"

definition advance :: "nat \<Rightarrow> mstate \<Rightarrow> mstate" where
  "advance j st = (case st of (prev, rest, caps) \<Rightarrow>
     ((if j = 0 then prev else Some (rest ! (j - 1))), drop j rest, caps))"

definition rep_max :: "nat option \<Rightarrow> (nat \<Rightarrow> bool) \<Rightarrow> ustring \<Rightarrow> nat" where
  "rep_max n p rest = (let k = length (takeWhile p rest) in
     (case n of None \<Rightarrow> k | Some b \<Rightarrow> min k b))"

definition at_boundary :: "(nat \<Rightarrow> bool) \<Rightarrow> nat option \<Rightarrow> ustring \<Rightarrow> bool" where
  "at_boundary w prev rest =
     ((case prev of None \<Rightarrow> False | Some c \<Rightarrow> w c) \<noteq> (case rest of [] \<Rightarrow> False | x # _ \<Rightarrow> w x))"

fun rmatch :: "regex \<Rightarrow> mstate \<Rightarrow> mstate list" where
  "rmatch (Cls p) (prev, rest, caps) =
     (case rest of [] \<Rightarrow> [] | x # xs \<Rightarrow> if p x then [(Some x, xs, caps)] else [])"
| "rmatch Eps st = [st]"
| "rmatch (Seq a b) st = concat (map (rmatch b) (rmatch a st))"
| "rmatch (Alt a b) st = rmatch a st @ rmatch b st"
| "rmatch (Rep m n p) (prev, rest, caps) =
     map (\<lambda>j. advance j (prev, rest, caps)) (rev [m ..< Suc (rep_max n p rest)])"
| "rmatch (Grp g r) (prev, rest, caps) =
     map (\<lambda>(prev', rest', caps'). (prev', rest', (g, take (length rest - length rest') rest) # caps'))
       (rmatch r (prev, rest, caps))"
| "rmatch (WordB w) (prev, rest, caps) = (if at_boundary w prev rest then [(prev, rest, caps)] else [])"
| "rmatch Bol (prev, rest, caps) = (if prev = None then [(prev, rest, caps)] else [])"

text \<open>A match object: where it starts, the text it spans (group 0) and its groups.\<close>

record rematch =
  m_start :: nat
  m_text :: ustring
  m_caps :: "(nat \<times> ustring) list"

definition group :: "rematch \<Rightarrow> nat \<Rightarrow> ustring" where
  "group m g = (case map_of (m_caps m) g of Some t \<Rightarrow> t | None \<Rightarrow> [])"

definition match_here :: "regex \<Rightarrow> nat \<Rightarrow> nat option \<Rightarrow> ustring \<Rightarrow> rematch option" where
  "match_here r i prev xs = (case rmatch r (prev, xs, []) of
       [] \<Rightarrow> None
     | (prev', rest', caps) # _ \<Rightarrow>
         Some \<lparr>m_start = i, m_text = take (length xs - length rest') xs, m_caps = caps\<rparr>)"

text \<open>\<open>re.search\<close>: the first match at the leftmost position that has one.\<close>

fun search_from :: "regex \<Rightarrow> nat \<Rightarrow> nat option \<Rightarrow> ustring \<Rightarrow> rematch option" where
  "search_from r i prev [] = match_here r i prev []"
| "search_from r i prev (x # xs) = (case match_here r i prev (x # xs) of
       Some m \<Rightarrow> Some m
     | None \<Rightarrow> search_from r (Suc i) (Some x) xs)"

definition re_search :: "regex \<Rightarrow> ustring \<Rightarrow> rematch option" where
  "re_search r s = search_from r 0 None s"

text \<open>
  \<open>re.finditer\<close> and \<open>re.sub\<close> scan the text from left to right and take the matches that
  do not overlap: after a match the scan goes on where the match ended.  No pattern of
  the program matches the empty string; the branch for an empty match steps one
  character on, which keeps the functions total.
\<close>

lemma match_here_length:
  "match_here r i prev xs = Some m \<Longrightarrow> length (m_text m) \<le> length xs"
  by (auto simp: match_here_def split: list.splits)

function find_from :: "regex \<Rightarrow> nat \<Rightarrow> nat option \<Rightarrow> ustring \<Rightarrow> rematch list" where
  "find_from r i prev xs =
     (case match_here r i prev xs of
        None \<Rightarrow> (case xs of [] \<Rightarrow> [] | x # xs' \<Rightarrow> find_from r (Suc i) (Some x) xs')
      | Some m \<Rightarrow>
          (if length (m_text m) = 0
           then m # (case xs of [] \<Rightarrow> [] | x # xs' \<Rightarrow> find_from r (Suc i) (Some x) xs')
           else m # find_from r (i + length (m_text m)) (Some (xs ! (length (m_text m) - 1)))
                      (drop (length (m_text m)) xs)))"
  by pat_completeness auto
termination
proof (relation "measure (\<lambda>(r, i, prev, xs). length xs)")
  fix r i prev xs m
  assume "match_here r i prev xs = Some m" "length (m_text m) \<noteq> 0"
  then show "((r, i + length (m_text m), Some (xs ! (length (m_text m) - 1)),
      drop (length (m_text m)) xs), r, i, prev, xs) \<in> measure (\<lambda>(r, i, prev, xs). length xs)"
    using match_here_length [of r i prev xs m] by (cases "m_text m") auto
qed auto

declare find_from.simps [simp del]

definition re_finditer :: "regex \<Rightarrow> ustring \<Rightarrow> rematch list" where
  "re_finditer r s = find_from r 0 None s"

function sub_from :: "regex \<Rightarrow> ustring \<Rightarrow> nat option \<Rightarrow> ustring \<Rightarrow> ustring" where
  "sub_from r repl prev xs =
     (case match_here r 0 prev xs of
        None \<Rightarrow> (case xs of [] \<Rightarrow> [] | x # xs' \<Rightarrow> x # sub_from r repl (Some x) xs')
      | Some m \<Rightarrow>
          (if length (m_text m) = 0
           then repl @ (case xs of [] \<Rightarrow> [] | x # xs' \<Rightarrow> x # sub_from r repl (Some x) xs')
           else repl @ sub_from r repl (Some (xs ! (length (m_text m) - 1)))
                         (drop (length (m_text m)) xs)))"
  by pat_completeness auto
termination
proof (relation "measure (\<lambda>(r, repl, prev, xs). length xs)")
  fix r repl prev xs m
  assume "match_here r 0 prev xs = Some m" "length (m_text m) \<noteq> 0"
  then show "((r, repl, Some (xs ! (length (m_text m) - 1)), drop (length (m_text m)) xs),
      r, repl, prev, xs) \<in> measure (\<lambda>(r, repl, prev, xs). length xs)"
    using match_here_length [of r 0 prev xs m] by (cases "m_text m") auto
qed auto

declare sub_from.simps [simp del]

definition re_sub :: "regex \<Rightarrow> ustring \<Rightarrow> ustring \<Rightarrow> ustring" where
  "re_sub r repl s = sub_from r repl None s"

section \<open>Calendar dates\<close>

text \<open>
  \<open>datetime(y, mn, d)\<close> raises \<open>ValueError\<close> unless the year is in 1..9999, the month in
  1..12 and the day in 1..the length of that month (proleptic Gregorian calendar); a
  \<open>datetime\<close> object exists only through this check.  \<open>Some (y, mn, d)\<close> is the object,
  \<open>None\<close> the exception.
\<close>

definition is_leap :: "nat \<Rightarrow> bool" where
  "is_leap y = (y mod 4 = 0 \<and> (y mod 100 \<noteq> 0 \<or> y mod 400 = 0))"

definition days_in_month :: "nat \<Rightarrow> nat \<Rightarrow> nat" where
  "days_in_month y mn =
     (if mn = 2 then (if is_leap y then 29 else 28)
      else if mn = 4 \<or> mn = 6 \<or> mn = 9 \<or> mn = 11 then 30 else 31)"

definition valid_date :: "nat \<Rightarrow> nat \<Rightarrow> nat \<Rightarrow> bool" where
  "valid_date y mn d = (1 \<le> y \<and> y \<le> 9999 \<and> 1 \<le> mn \<and> mn \<le> 12 \<and> 1 \<le> d \<and> d \<le> days_in_month y mn)"

definition datetime :: "nat \<Rightarrow> nat \<Rightarrow> nat \<Rightarrow> (nat \<times> nat \<times> nat) option" where
  "datetime y mn d = (if valid_date y mn d then Some (y, mn, d) else None)"

definition digit_chr :: "nat \<Rightarrow> nat" where
  "digit_chr n = 48 + n mod 10"

definition two_digits :: "nat \<Rightarrow> ustring" where
  "two_digits n = [digit_chr (n div 10), digit_chr n]"

definition four_digits :: "nat \<Rightarrow> ustring" where
  "four_digits n = [digit_chr (n div 1000), digit_chr (n div 100), digit_chr (n div 10), digit_chr n]"

text \<open>The decimal numeral of a natural number, as \<open>str(i)\<close> and \<open>%d\<close> print it.\<close>

fun str_nat :: "nat \<Rightarrow> ustring" where
  "str_nat n = (if n < 10 then [digit_chr n] else str_nat (n div 10) @ [digit_chr n])"

declare str_nat.simps [simp del]

text \<open>
  \<open>strftime("%Y-%m-%d")\<close>: month and day have two digits; the year has four digits where
  the C library pads it, and is the plain numeral where it does not.
\<close>

definition year_str :: "runtime \<Rightarrow> nat \<Rightarrow> ustring" where
  "year_str U y = (if year_padded U \<or> 1000 \<le> y then four_digits y else str_nat y)"

definition strftime :: "runtime \<Rightarrow> nat \<times> nat \<times> nat \<Rightarrow> ustring" where
  "strftime U dt = (case dt of (y, mn, d) \<Rightarrow> year_str U y @ [45] @ two_digits mn @ [45] @ two_digits d)"

section \<open>The date normalizer\<close>

definition date_sep :: "nat \<Rightarrow> bool" where
  "date_sep c = (c = 46 \<or> c = 45 \<or> c = 47)"

definition date_rx1 :: "runtime \<Rightarrow> regex" where
  "date_rx1 U =
     Seq (WordB (is_word U)) (Seq (Grp 1 (Rep 1 (Some 2) (is_digit U))) (Seq (Cls date_sep)
       (Seq (Grp 2 (Rep 1 (Some 2) (is_digit U))) (Seq (Cls date_sep)
       (Seq (Grp 3 (Rep 2 (Some 4) (is_digit U))) (WordB (is_word U)))))))"

definition date_rx2 :: "runtime \<Rightarrow> regex" where
  "date_rx2 U =
     Seq (WordB (is_word U)) (Seq (Grp 1 (Rep 4 (Some 4) (is_digit U))) (Seq (Cls date_sep)
       (Seq (Grp 2 (Rep 1 (Some 2) (is_digit U))) (Seq (Cls date_sep)
       (Seq (Grp 3 (Rep 1 (Some 2) (is_digit U))) (WordB (is_word U)))))))"

definition date_rx3 :: "runtime \<Rightarrow> regex" where
  "date_rx3 U =
     Seq (WordB (is_word U)) (Seq (Grp 1 (Rep 1 (Some 2) (is_digit U)))
       (Seq (Rep 0 None is_space) (Seq (Cls (\<lambda>c. c = 46)) (Seq (Rep 0 None is_space)
       (Seq (Grp 2 (Rep 1 (Some 2) (is_digit U)))
       (Seq (Rep 0 None is_space) (Seq (Cls (\<lambda>c. c = 46)) (Seq (Rep 0 None is_space)
       (Seq (Grp 3 (Rep 2 (Some 4) (is_digit U))) (WordB (is_word U)))))))))))"

definition DATE_REGEXES :: "runtime \<Rightarrow> regex list" where
  "DATE_REGEXES U = [date_rx1 U, date_rx2 U, date_rx3 U]"

text \<open>
  The body of the loop of \<open>normalize_date\<close> for one match: the three groups are read as
  numbers, ordered by the width of the first and the third group, and handed to
  \<open>datetime\<close>; \<open>None\<close> is the swallowed exception.
\<close>

definition date_of_groups :: "runtime \<Rightarrow> rematch \<Rightarrow> (nat \<times> nat \<times> nat) option" where
  "date_of_groups U m =
     (let a = int_of_digits U (group m 1); b = int_of_digits U (group m 2);
          c = int_of_digits U (group m 3)
      in if length (group m 1) = 4 then datetime a b c
         else if length (group m 3) = 4 then datetime c b a
         else datetime (if c < 100 then 2000 + c else c) b a)"

fun numeric_date :: "runtime \<Rightarrow> regex list \<Rightarrow> ustring \<Rightarrow> ustring option" where
  "numeric_date U [] s = None"
| "numeric_date U (rgx # rs) s =
     (case re_search rgx s of
        None \<Rightarrow> numeric_date U rs s
      | Some m \<Rightarrow> (case date_of_groups U m of
                     Some dt \<Rightarrow> Some (strftime U dt)
                   | None \<Rightarrow> numeric_date U rs s))"

text \<open>
  \<open>dparser.parse(s, dayfirst=True, fuzzy=True)\<close> is a function of the library
  \<open>dateutil\<close>, which is not part of the repository: it is the parameter \<open>dp\<close>.  The
  library fills the fields it does not find in the text from a default, which is the
  current date when the caller gives none, as here; so \<open>dp\<close> takes the current date as
  its first argument.  Its result is a \<open>datetime\<close> object, so it has passed the check
  of the constructor; an exception, of the parser or of the constructor, is \<open>None\<close>.
\<close>

type_synonym date = "nat \<times> nat \<times> nat"
type_synonym dateparser = "date \<Rightarrow> ustring \<Rightarrow> date option"

definition fallback_parse :: "dateparser \<Rightarrow> date \<Rightarrow> ustring \<Rightarrow> date option" where
  "fallback_parse dp today s =
     (case dp today s of None \<Rightarrow> None | Some (y, mn, d) \<Rightarrow> datetime y mn d)"

definition normalize_date :: "runtime \<Rightarrow> dateparser \<Rightarrow> date \<Rightarrow> ustring \<Rightarrow> ustring option" where
  "normalize_date U dp today any_date_text =
     (let s = strip any_date_text in
      case numeric_date U (DATE_REGEXES U) s of
        Some r \<Rightarrow> Some r
      | None \<Rightarrow> (case fallback_parse dp today s of
                   Some dt \<Rightarrow> Some (strftime U dt)
                 | None \<Rightarrow> None))"

section \<open>Patterns under \<open>re.IGNORECASE\<close>\<close>

text \<open>
  Under \<open>IGNORECASE\<close> a literal letter of a pattern matches both of its cases; for a
  \<open>str\<close> pattern it also matches the code points that the Unicode case mappings send
  to it: U+0130 and U+0131 for \<open>i\<close>, U+017F for \<open>s\<close>, U+212A for \<open>k\<close>.  The literal
  is given in lower case.  The Czech letters of the patterns are U+010D, U+011B and
  U+00ED, with the capitals U+010C, U+011A and U+00CD.
\<close>

definition ci_lit :: "nat \<Rightarrow> nat \<Rightarrow> bool" where
  "ci_lit p x = (x = p \<or> (ascii_lower p \<and> x + 32 = p)
     \<or> (p = 105 \<and> (x = 304 \<or> x = 305)) \<or> (p = 115 \<and> x = 383) \<or> (p = 107 \<and> x = 8490)
     \<or> (p = 269 \<and> x = 268) \<or> (p = 283 \<and> x = 282) \<or> (p = 237 \<and> x = 205))"

fun lits :: "ustring \<Rightarrow> regex" where
  "lits [] = Eps"
| "lits (c # cs) = Seq (Cls (ci_lit c)) (lits cs)"

fun seqs :: "regex list \<Rightarrow> regex" where
  "seqs [] = Eps"
| "seqs (r # rs) = Seq r (seqs rs)"

fun alts :: "regex list \<Rightarrow> regex" where
  "alts [] = Eps"
| "alts [r] = r"
| "alts (r # rs) = Alt r (alts rs)"

definition opt :: "regex \<Rightarrow> regex" where
  "opt r = Alt r Eps"

text \<open>The four code points beyond ASCII that \<open>[A-Z]\<close> and \<open>[a-z]\<close> match under \<open>IGNORECASE\<close>.\<close>

definition ci_extra :: "nat \<Rightarrow> bool" where
  "ci_extra c = (c = 304 \<or> c = 305 \<or> c = 383 \<or> c = 8490)"

definition ci_letter :: "nat \<Rightarrow> bool" where
  "ci_letter c = (ascii_upper c \<or> ascii_lower c \<or> ci_extra c)"

text \<open>\<open>[A-Z0-9/\-]\<close>, \<open>[A-Z0-9]\<close> and \<open>[a-z0-9\-]\<close> under \<open>IGNORECASE\<close>.\<close>

definition invno_char :: "nat \<Rightarrow> bool" where
  "invno_char c = (ci_letter c \<or> ascii_digit c \<or> c = 47 \<or> c = 45)"

definition alnum_ci :: "nat \<Rightarrow> bool" where
  "alnum_ci c = (ci_letter c \<or> ascii_digit c)"

definition domain_char :: "nat \<Rightarrow> bool" where
  "domain_char c = (ci_letter c \<or> ascii_digit c \<or> c = 45)"

text \<open>\<open>str.upper()\<close> and \<open>str.lower()\<close>, character by character.\<close>

definition upper_char :: "runtime \<Rightarrow> nat \<Rightarrow> ustring" where
  "upper_char U c = (if c < 128 then [if ascii_lower c then c - 32 else c] else uc_upper U c)"

definition py_upper :: "runtime \<Rightarrow> ustring \<Rightarrow> ustring" where
  "py_upper U s = concat (map (upper_char U) s)"

definition lower_char :: "runtime \<Rightarrow> nat \<Rightarrow> ustring" where
  "lower_char U c = (if c < 128 then [if ascii_upper c then c + 32 else c] else uc_lower U c)"

definition py_lower :: "runtime \<Rightarrow> ustring \<Rightarrow> ustring" where
  "py_lower U s = concat (map (lower_char U) s)"

section \<open>The hint-proximity locator\<close>

definition is_linebreak :: "nat \<Rightarrow> bool" where
  "is_linebreak c = (c = 10 \<or> c = 11 \<or> c = 12 \<or> c = 13 \<or> c = 28 \<or> c = 29 \<or> c = 30
     \<or> c = 133 \<or> c = 8232 \<or> c = 8233)"

text \<open>\<open>str.splitlines()\<close>; \<open>\r\n\<close> is one line break, and a final line break opens no line.\<close>

fun split_aux :: "ustring \<Rightarrow> ustring \<Rightarrow> ustring list" where
  "split_aux cur [] = (if cur = [] then [] else [rev cur])"
| "split_aux cur [x] = (if is_linebreak x then [rev cur] else [rev (x # cur)])"
| "split_aux cur (x # y # xs) =
     (if x = 13 \<and> y = 10 then rev cur # split_aux [] xs
      else if is_linebreak x then rev cur # split_aux [] (y # xs)
      else split_aux (x # cur) (y # xs))"

definition splitlines :: "ustring \<Rightarrow> ustring list" where
  "splitlines s = split_aux [] s"

text \<open>\<open>[l.strip() for l in text.splitlines() if l.strip()]\<close>\<close>

definition nonempty_lines :: "ustring \<Rightarrow> ustring list" where
  "nonempty_lines text = map strip (filter (\<lambda>l. strip l \<noteq> []) (splitlines text))"

fun join_lines :: "ustring list \<Rightarrow> ustring" where
  "join_lines [] = []"
| "join_lines [l] = l"
| "join_lines (l # ls) = l @ [10] @ join_lines ls"

text \<open>
  The loop that finds the line of a match: the first index whose accumulated length
  exceeds the offset; \<open>idx\<close> stays 0 when the loop ends without a \<open>break\<close>.
\<close>

fun line_index :: "ustring list \<Rightarrow> nat \<Rightarrow> nat \<Rightarrow> nat \<Rightarrow> nat" where
  "line_index [] acc i pos = 0"
| "line_index (l # ls) acc i pos =
     (if acc + (length l + 1) > pos then i else line_index ls (acc + (length l + 1)) (Suc i) pos)"

definition hint_candidates :: "ustring list \<Rightarrow> nat \<Rightarrow> ustring list" where
  "hint_candidates lines idx =
     map (\<lambda>j. lines ! j)
       (filter (\<lambda>j. j \<noteq> idx \<and> length (lines ! j) \<ge> 3) [idx ..< min (idx + 4) (length lines)])"

fun hints_loop :: "ustring list \<Rightarrow> ustring \<Rightarrow> regex list \<Rightarrow> ustring list" where
  "hints_loop lines joined [] = []"
| "hints_loop lines joined (hw # hws) =
     (case re_search hw joined of
        None \<Rightarrow> hints_loop lines joined hws
      | Some m \<Rightarrow> hint_candidates lines (line_index lines 0 0 (m_start m)) @ hints_loop lines joined hws)"

text \<open>The generator, as the list of what it yields, in order.\<close>

definition find_first_by_hints :: "ustring \<Rightarrow> regex list \<Rightarrow> ustring list" where
  "find_first_by_hints text hint_words =
     (let lines = nonempty_lines text in hints_loop lines (join_lines lines) hint_words)"

definition DATE_HINT_WORDS :: "regex list" where
  "DATE_HINT_WORDS =
     [ seqs [lits (ustr ''datum''), Rep 0 None is_space, lits (ustr ''vystav''),
             Grp 1 (Alt (Cls (ci_lit 101)) (Cls (ci_lit 283))), Cls (ci_lit 110), Cls (ci_lit 237)],
       lits (ustr ''vystaveno''),
       seqs [lits (ustr ''date''), Rep 0 None is_space, lits (ustr ''of''), Rep 0 None is_space,
             lits (ustr ''issue'')],
       seqs [lits (ustr ''issue''), Rep 0 None is_space, lits (ustr ''date'')],
       lits (ustr ''datum''),
       lits (ustr ''date'') ]"

definition SUPPLIER_HINT_WORDS :: "regex list" where
  "SUPPLIER_HINT_WORDS = [lits (ustr ''dodavatel''), lits (ustr ''supplier''), lits (ustr ''vystavitel'')]"

section \<open>The field extractors\<close>

text \<open>The first element of a list on which a function succeeds (a loop with an early return).\<close>

fun first_some :: "('a \<Rightarrow> 'b option) \<Rightarrow> 'a list \<Rightarrow> 'b option" where
  "first_some f [] = None"
| "first_some f (x # xs) = (case f x of Some y \<Rightarrow> Some y | None \<Rightarrow> first_some f xs)"

definition extract_date :: "runtime \<Rightarrow> dateparser \<Rightarrow> date \<Rightarrow> ustring \<Rightarrow> ustring option" where
  "extract_date U dp today text =
     (case first_some (normalize_date U dp today) (find_first_by_hints text DATE_HINT_WORDS) of
        Some dt \<Rightarrow> Some dt
      | None \<Rightarrow>
         (case first_some (\<lambda>m. normalize_date U dp today (m_text m))
                 (concat (map (\<lambda>rgx. re_finditer rgx text) (DATE_REGEXES U))) of
            Some dt \<Rightarrow> Some dt
          | None \<Rightarrow> normalize_date U dp today text))"

definition colon_space :: "nat \<Rightarrow> bool" where
  "colon_space c = (c = 58 \<or> is_space c)"

definition INVOICE_NO_REGEXES :: "runtime \<Rightarrow> regex list" where
  "INVOICE_NO_REGEXES U =
     [ seqs [Alt (lits [269, 237, 115, 108, 111]) (lits (ustr ''cislo'')), Rep 0 None is_space,
             lits (ustr ''faktury''), Rep 0 None colon_space, Grp 1 (Rep 1 None invno_char)],
       seqs [lits (ustr ''faktura''), Rep 0 None is_space,
             opt (Alt (lits [269, 46]) (lits (ustr ''#''))),
             Rep 0 None colon_space, Grp 1 (Rep 1 None invno_char)],
       seqs [lits (ustr ''invoice''), Rep 0 None is_space,
             opt (alts [lits (ustr ''no.''), lits (ustr ''number''), lits (ustr ''#'')]),
             Rep 0 None colon_space, Grp 1 (Rep 1 None invno_char)],
       seqs [WordB (is_word U), alts [lits (ustr ''inv''), lits (ustr ''var''), lits (ustr ''vs'')],
             Rep 0 None is_space, Rep 0 (Some 1) (\<lambda>c. c = 58 \<or> c = 35), Rep 0 None is_space,
             Grp 1 (Rep 3 None invno_char)] ]"

text \<open>
  \<open>\b([A-Z]{1,4}[-/]?\d{2,4}[-/]\d{2,6}|[0-9]{3,}/[0-9]{2,4}|[A-Z0-9]{5,})\b\<close>
\<close>

definition dash_slash :: "nat \<Rightarrow> bool" where
  "dash_slash c = (c = 45 \<or> c = 47)"

definition loose_invoice_rx :: "runtime \<Rightarrow> regex" where
  "loose_invoice_rx U =
     Seq (WordB (is_word U))
       (Seq (Grp 1 (Alt (seqs [Rep 1 (Some 4) ci_letter, Rep 0 (Some 1) dash_slash,
                               Rep 2 (Some 4) (is_digit U), Cls dash_slash, Rep 2 (Some 6) (is_digit U)])
                   (Alt (seqs [Rep 3 None ascii_digit, Cls (\<lambda>c. c = 47), Rep 2 (Some 4) ascii_digit])
                        (Rep 5 None alnum_ci))))
            (WordB (is_word U)))"

text \<open>\<open>re.sub(r"[^A-Z0-9/\-]", "", raw.upper())\<close> after \<open>m.group(1).strip()\<close>\<close>

definition clean_invoice_raw :: "runtime \<Rightarrow> ustring \<Rightarrow> ustring" where
  "clean_invoice_raw U g =
     re_sub (Cls (\<lambda>c. \<not> (ascii_upper c \<or> ascii_digit c \<or> c = 47 \<or> c = 45))) []
       (py_upper U (strip g))"

fun labelled_invoice_no :: "runtime \<Rightarrow> regex list \<Rightarrow> ustring \<Rightarrow> ustring option" where
  "labelled_invoice_no U [] text = None"
| "labelled_invoice_no U (rgx # rs) text =
     (case re_search rgx text of
        None \<Rightarrow> labelled_invoice_no U rs text
      | Some m \<Rightarrow> (let raw = clean_invoice_raw U (group m 1) in
                    if length raw \<ge> 3 then Some raw else labelled_invoice_no U rs text))"

definition extract_invoice_no :: "runtime \<Rightarrow> ustring \<Rightarrow> ustring option" where
  "extract_invoice_no U text =
     (case labelled_invoice_no U (INVOICE_NO_REGEXES U) text of
        Some raw \<Rightarrow> Some raw
      | None \<Rightarrow> (case re_search (loose_invoice_rx U) text of
                   Some m \<Rightarrow> Some (py_upper U (group m 1))
                 | None \<Rightarrow> None))"

subsection \<open>Supplier\<close>

text \<open>The class \<open>[A-Za-z0-9...]\<close> of the cleaner: ASCII letters and digits and the Czech letters.\<close>

definition cz_letter :: "nat \<Rightarrow> bool" where
  "cz_letter c = (ascii_upper c \<or> ascii_lower c \<or> c \<in> set [193, 201, 205, 211, 218, 221, 268, 270,
     282, 327, 344, 352, 356, 366, 381, 225, 233, 237, 243, 250, 253, 269, 271, 283, 328, 345,
     353, 357, 367, 382])"

definition cz_alnum :: "nat \<Rightarrow> bool" where
  "cz_alnum c = (cz_letter c \<or> ascii_digit c)"

definition leading_junk_rx :: regex where
  "leading_junk_rx = Seq Bol (Rep 1 None (\<lambda>c. \<not> cz_alnum c))"

definition email_rx :: regex where
  "email_rx = Seq (Rep 1 None (\<lambda>c. \<not> is_space c)) (Seq (Cls (\<lambda>c. c = 64)) (Rep 1 None (\<lambda>c. \<not> is_space c)))"

definition phone_rx :: "runtime \<Rightarrow> regex" where
  "phone_rx U = Seq (Rep 0 (Some 1) (\<lambda>c. c = 43)) (Seq (Cls (is_digit U))
     (Rep 6 None (\<lambda>c. is_digit U c \<or> is_space c \<or> c = 45)))"

definition address_rx :: "runtime \<Rightarrow> regex" where
  "address_rx U = Seq (WordB (is_word U))
     (Seq (Grp 1 (alts [lits (ustr ''ulice''), lits (ustr ''street''), lits (ustr ''ul.''),
                        lits [269, 46, 112, 46], lits (ustr ''psc''), lits (ustr ''zip''),
                        lits (ustr ''budova''), lits (ustr ''building'')]))
       (Seq (WordB (is_word U)) (Rep 0 None (\<lambda>c. c \<noteq> 10))))"

definition spaces_rx :: regex where
  "spaces_rx = Rep 2 None is_space"

definition name_edge :: "nat \<Rightarrow> bool" where
  "name_edge c = (c = 32 \<or> c = 46 \<or> c = 44 \<or> c = 45)"

definition clean_company_name :: "runtime \<Rightarrow> ustring \<Rightarrow> ustring" where
  "clean_company_name U s0 =
     (let s1 = strip s0;
          s2 = re_sub leading_junk_rx [] s1;
          s3 = re_sub email_rx [] s2;
          s4 = re_sub (phone_rx U) [] s3;
          s5 = re_sub (address_rx U) [] s4;
          s6 = re_sub spaces_rx [32] s5;
          s7 = strip_chars name_edge s6
      in if length s7 > 60 then rstrip_chars is_space (take 60 s7) else s7)"

definition COMPANY_MARKERS :: "regex list" where
  "COMPANY_MARKERS =
     [ lits (ustr ''s.r.o.''), lits (ustr ''a.s.''), lits (ustr ''sro''), lits (ustr ''as''),
       lits (ustr ''se''), lits (ustr ''gmbh''), lits (ustr ''kg''), lits (ustr ''spol.''),
       lits (ustr ''inc.''), Seq (lits (ustr ''ltd'')) (Rep 0 (Some 1) (\<lambda>c. c = 46)) ]"

text \<open>\<open>len(line.split())\<close>: the number of maximal runs of characters that are not whitespace.\<close>

fun count_words :: "bool \<Rightarrow> ustring \<Rightarrow> nat" where
  "count_words inside [] = 0"
| "count_words inside (c # cs) =
     (if is_space c then count_words False cs
      else if inside then count_words True cs else Suc (count_words True cs))"

definition looks_like_company :: "ustring \<Rightarrow> bool" where
  "looks_like_company line =
     (if list_ex (\<lambda>m. re_search m line \<noteq> None) COMPANY_MARKERS then True
      else length (re_finditer (Cls cz_letter) line) > 8 \<and> count_words False line \<ge> 2)"

definition domain_rx :: "runtime \<Rightarrow> regex" where
  "domain_rx U = Seq (WordB (is_word U)) (Seq (Grp 1 (Rep 1 None domain_char)) (Seq (Cls (\<lambda>c. c = 46))
     (Seq (Grp 2 (alts [lits (ustr ''cz''), lits (ustr ''sk''), lits (ustr ''com''), lits (ustr ''eu''),
                        lits (ustr ''de'')])) (WordB (is_word U)))))"

text \<open>\<open>str.capitalize()\<close>: the first character in title case, the others in lower case.\<close>

definition title_char :: "runtime \<Rightarrow> nat \<Rightarrow> ustring" where
  "title_char U c = (if c < 128 then [if ascii_lower c then c - 32 else c] else uc_title U c)"

definition capitalize :: "runtime \<Rightarrow> ustring \<Rightarrow> ustring" where
  "capitalize U s = (case s of [] \<Rightarrow> [] | c # cs \<Rightarrow> title_char U c @ py_lower U cs)"

definition clean_candidate :: "runtime \<Rightarrow> ustring \<Rightarrow> ustring option" where
  "clean_candidate U cand = (let c = clean_company_name U cand in if length c \<ge> 3 then Some c else None)"

definition extract_supplier :: "runtime \<Rightarrow> ustring \<Rightarrow> ustring option" where
  "extract_supplier U text =
     (case first_some (clean_candidate U) (find_first_by_hints text SUPPLIER_HINT_WORDS) of
        Some cand \<Rightarrow> Some cand
      | None \<Rightarrow>
         (case first_some (\<lambda>l. if looks_like_company l then clean_candidate U l else None)
                 (take 12 (nonempty_lines text)) of
            Some cand \<Rightarrow> Some cand
          | None \<Rightarrow> (case re_search (domain_rx U) text of
                       Some m \<Rightarrow> Some (capitalize U (group m 1))
                     | None \<Rightarrow> None)))"

section \<open>The name builder\<close>

definition reserved_char :: "nat \<Rightarrow> bool" where
  "reserved_char c = (c = 58 \<or> c = 42 \<or> c = 63 \<or> c = 34 \<or> c = 60 \<or> c = 62 \<or> c = 124)"

definition replace_char :: "nat \<Rightarrow> nat \<Rightarrow> ustring \<Rightarrow> ustring" where
  "replace_char a b s = map (\<lambda>c. if c = a then b else c) s"

definition sanitize_filename :: "ustring \<Rightarrow> ustring" where
  "sanitize_filename s0 =
     (let s1 = replace_char 47 45 s0;
          s2 = replace_char 92 45 s1;
          s3 = re_sub (Cls reserved_char) [45] s2
      in strip (re_sub spaces_rx [32] s3))"

text \<open>\<open>unidecode\<close> leaves ASCII as it is and transliterates the rest by its table.\<close>

definition unidecode :: "runtime \<Rightarrow> ustring \<Rightarrow> ustring" where
  "unidecode U s = concat (map (\<lambda>c. if c < 128 then [c] else uc_translit U c) s)"

text \<open>\<open>x or default\<close>: \<open>None\<close> and the empty string are both false.\<close>

definition or_default :: "ustring option \<Rightarrow> ustring \<Rightarrow> ustring" where
  "or_default x d = (case x of None \<Rightarrow> d | Some v \<Rightarrow> if v = [] then d else v)"

definition build_new_name :: "runtime \<Rightarrow> ustring option \<Rightarrow> ustring option \<Rightarrow> ustring option \<Rightarrow> ustring" where
  "build_new_name U date_str supplier invno =
     (let parts = [or_default date_str (ustr ''0000-00-00''),
                   or_default supplier (ustr ''Neznamy-dodavatel''),
                   or_default invno (ustr ''Bez-cisla'')];
          name = (parts ! 0) @ [32] @ (parts ! 1) @ [32] @ (parts ! 2) @ ustr ''.pdf''
      in sanitize_filename (unidecode U name))"

section \<open>Processing one document and the batch\<close>

text \<open>
  Rendering, image processing and OCR are libraries outside the repository; they are
  the fields of \<open>collaborators\<close>.  A call that raises an exception is \<open>Inl\<close> of its
  message (\<open>str(e)\<close>).  \<open>render_first_page\<close> is \<open>None\<close> for a document without pages.
\<close>

record ('p, 'img) collaborators =
  render_first_page :: "'p \<Rightarrow> ustring + 'img option"
  preprocess :: "'img \<Rightarrow> ustring + 'img"
  image_to_string :: "'img \<Rightarrow> ustring + ustring"

text \<open>\<open>ocr_image\<close> turns an exception of the engine into the empty text.\<close>

definition ocr_image :: "('p, 'img) collaborators \<Rightarrow> 'img \<Rightarrow> ustring" where
  "ocr_image C img = (case image_to_string C img of Inl e \<Rightarrow> [] | Inr txt \<Rightarrow> txt)"

definition or_empty :: "ustring option \<Rightarrow> ustring" where
  "or_empty x = (case x of None \<Rightarrow> [] | Some v \<Rightarrow> v)"

type_synonym fields = "ustring option \<times> ustring option \<times> ustring option \<times> ustring"

definition process_pdf ::
  "runtime \<Rightarrow> dateparser \<Rightarrow> date \<Rightarrow> ('p, 'img) collaborators \<Rightarrow> 'p \<Rightarrow> ustring + fields" where
  "process_pdf U dp today C path =
     (case render_first_page C path of
        Inl e \<Rightarrow> Inl e
      | Inr None \<Rightarrow> Inr (None, None, None, ustr ''NO_PAGE'')
      | Inr (Some img) \<Rightarrow>
         (case preprocess C img of
            Inl e \<Rightarrow> Inl e
          | Inr pre \<Rightarrow>
             (let text0 = ocr_image C pre;
                  text = (if text0 = [] \<or> length (strip text0) = 0 then ocr_image C img else text0)
              in Inr (Some (or_empty (extract_date U dp today text)),
                      Some (or_empty (extract_supplier U text)),
                      Some (or_empty (extract_invoice_no U text)),
                      ustr ''OK''))))"

record row =
  original_file :: ustring
  r_date :: "ustring option"
  r_supplier :: "ustring option"
  r_invoice_no :: "ustring option"
  proposed_name :: ustring
  status :: ustring

text \<open>\<open>os.path.join\<close> (POSIX) of a directory and a name.\<close>

definition path_join :: "ustring \<Rightarrow> ustring \<Rightarrow> ustring" where
  "path_join a b =
     (if b \<noteq> [] \<and> hd b = 47 then b
      else if a = [] \<or> last a = 47 then a @ b
      else a @ [47] @ b)"

text \<open>
  The body of the loop of \<open>main\<close> for one file: the \<open>try\<close> block when \<open>process_pdf\<close>
  returns, the \<open>except\<close> block when it raises.
\<close>

definition row_of ::
  "runtime \<Rightarrow> dateparser \<Rightarrow> date \<Rightarrow> (ustring, 'img) collaborators \<Rightarrow> ustring \<Rightarrow> ustring \<Rightarrow> row" where
  "row_of U dp today C in_dir f =
     (case process_pdf U dp today C (path_join in_dir f) of
        Inr (date, supp, invno, st) \<Rightarrow>
          \<lparr>original_file = f, r_date = date, r_supplier = supp, r_invoice_no = invno,
           proposed_name = (if st = ustr ''OK'' then build_new_name U date supp invno else []),
           status = st\<rparr>
      | Inl e \<Rightarrow>
          \<lparr>original_file = f, r_date = Some [], r_supplier = Some [], r_invoice_no = Some [],
           proposed_name = [], status = ustr ''ERROR:'' @ e\<rparr>)"

fun main_loop ::
  "runtime \<Rightarrow> dateparser \<Rightarrow> date \<Rightarrow> (ustring, 'img) collaborators \<Rightarrow> ustring \<Rightarrow> row list \<Rightarrow>
     ustring list \<Rightarrow> row list" where
  "main_loop U dp today C in_dir rows [] = rows"
| "main_loop U dp today C in_dir rows (f # fs) =
     main_loop U dp today C in_dir (rows @ [row_of U dp today C in_dir f]) fs"

definition ends_with :: "ustring \<Rightarrow> ustring \<Rightarrow> bool" where
  "ends_with s suf = (length suf \<le> length s \<and> drop (length s - length suf) s = suf)"

definition main_rows ::
  "runtime \<Rightarrow> dateparser \<Rightarrow> date \<Rightarrow> (ustring, 'img) collaborators \<Rightarrow> ustring \<Rightarrow> ustring list \<Rightarrow> row list" where
  "main_rows U dp today C in_dir listing =
     main_loop U dp today C in_dir []
       (filter (\<lambda>f. ends_with (py_lower U f) (ustr ''.pdf'')) listing)"

section \<open>Avoiding an overwrite\<close>

text \<open>\<open>os.path.splitext\<close> (POSIX): \<open>rfind\<close> is \<open>-1\<close> when the character does not occur.\<close>

fun rfind_from :: "nat \<Rightarrow> ustring \<Rightarrow> int \<Rightarrow> int \<Rightarrow> int" where
  "rfind_from c [] i found = found"
| "rfind_from c (x # xs) i found = rfind_from c xs (i + 1) (if x = c then i else found)"

definition rfind :: "nat \<Rightarrow> ustring \<Rightarrow> int" where
  "rfind c s = rfind_from c s 0 (-1)"

definition splitext :: "ustring \<Rightarrow> ustring \<times> ustring" where
  "splitext p =
     (let sepIndex = rfind 47 p; dotIndex = rfind 46 p in
      if dotIndex > sepIndex \<and>
         list_ex (\<lambda>c. c \<noteq> 46) (take (nat (dotIndex - (sepIndex + 1))) (drop (nat (sepIndex + 1)) p))
      then (take (nat dotIndex) p, drop (nat dotIndex) p)
      else (p, []))"

text \<open>\<open>f"{base} ({i}){ext}"\<close>\<close>

definition variant :: "ustring \<Rightarrow> ustring \<Rightarrow> nat \<Rightarrow> ustring" where
  "variant base ext i = base @ [32, 40] @ str_nat i @ [41] @ ext"

text \<open>
  The loop \<open>while os.path.exists(dst)\<close>; \<open>existing\<close> lists the paths that exist.  It ends
  because the candidate names differ from one another and the directory is finite.
\<close>

lemma int_of_digits_snoc: "int_of_digits U (xs @ [c]) = 10 * int_of_digits U xs + digit_val U c"
  by (simp add: int_of_digits_def)

lemma digit_val_chr: "digit_val U (digit_chr n) = n mod 10"
proof -
  have "n mod 10 < 80" using mod_less_divisor [of 10 n] by linarith
  then show ?thesis by (simp add: digit_val_def digit_chr_def)
qed

lemma int_of_str_nat: "int_of_digits U (str_nat n) = n"
proof (induction n rule: str_nat.induct)
  case (1 n)
  show ?case
  proof (cases "n < 10")
    case True
    then show ?thesis
      using digit_val_chr [of U n] by (simp add: str_nat.simps [of n] int_of_digits_def)
  next
    case False
    then have "int_of_digits U (str_nat n) = 10 * (n div 10) + digit_val U (digit_chr n)"
      using 1 by (simp add: str_nat.simps [of n] int_of_digits_snoc)
    then show ?thesis
      by (simp add: digit_val_chr)
  qed
qed

lemma str_nat_inj: "str_nat i = str_nat j \<Longrightarrow> i = j"
  by (metis int_of_str_nat)

lemma variant_inj: "inj (variant base ext)"
  by (auto simp: inj_def variant_def dest: str_nat_inj)

lemma finite_variants: "finite {j. i \<le> j \<and> variant base ext j \<in> set existing}"
proof -
  have "finite (variant base ext -` set existing)"
    by (rule finite_vimageI [OF _ variant_inj]) simp
  then show ?thesis
    by (rule rev_finite_subset) auto
qed

function avoid_loop :: "ustring list \<Rightarrow> ustring \<Rightarrow> ustring \<Rightarrow> ustring \<Rightarrow> nat \<Rightarrow> ustring" where
  "avoid_loop existing base ext dst i =
     (if dst \<in> set existing then avoid_loop existing base ext (variant base ext i) (Suc i) else dst)"
  by pat_completeness auto
termination
proof (relation "measure (\<lambda>(existing, base, ext, dst, i).
    card {j. i \<le> j \<and> variant base ext j \<in> set existing} + (if dst \<in> set existing then 1 else 0))")
  fix existing :: "ustring list" and base ext dst :: ustring and i :: nat
  assume "dst \<in> set existing"
  let ?A = "{j. i \<le> j \<and> variant base ext j \<in> set existing}"
  let ?B = "{j. Suc i \<le> j \<and> variant base ext j \<in> set existing}"
  have fin: "finite ?B" by (rule finite_variants)
  have "card ?B + (if variant base ext i \<in> set existing then 1 else 0) = card ?A"
  proof (cases "variant base ext i \<in> set existing")
    case True
    then have "?A = insert i ?B" by (auto simp: le_Suc_eq)
    moreover have "i \<notin> ?B" by simp
    ultimately show ?thesis using fin True by simp
  next
    case False
    then have "?A = ?B" by (auto simp: Suc_le_eq order.strict_iff_order)
    then show ?thesis using False by simp
  qed
  then show "((existing, base, ext, variant base ext i, Suc i), existing, base, ext, dst, i)
      \<in> measure (\<lambda>(existing, base, ext, dst, i).
          card {j. i \<le> j \<and> variant base ext j \<in> set existing} + (if dst \<in> set existing then 1 else 0))"
    using \<open>dst \<in> set existing\<close> by simp
qed simp

declare avoid_loop.simps [simp del]

text \<open>The steps of \<open>main\<close> between \<open>i = 2\<close> and the end of the loop.\<close>

definition avoid_overwrite :: "ustring list \<Rightarrow> ustring \<Rightarrow> ustring" where
  "avoid_overwrite existing dst =
     (case splitext dst of (base, ext) \<Rightarrow> avoid_loop existing base ext dst 2)"

section \<open>Predicates used in the statements\<close>

text \<open>
  The text around a date: it holds no decimal digit, and the characters next to the date
  are not word characters.
\<close>

definition date_context :: "runtime \<Rightarrow> ustring \<Rightarrow> ustring \<Rightarrow> bool" where
  "date_context U pre post =
     (list_all (\<lambda>c. \<not> is_digit U c) pre \<and> (pre = [] \<or> \<not> is_word U (last pre)) \<and>
      list_all (\<lambda>c. \<not> is_digit U c) post \<and> (post = [] \<or> \<not> is_word U (hd post)))"

text \<open>The same, for the position before a date and for the text after it.\<close>

definition nonword_prev :: "runtime \<Rightarrow> nat option \<Rightarrow> bool" where
  "nonword_prev U p = (case p of None \<Rightarrow> True | Some c \<Rightarrow> \<not> is_word U c)"

definition clean_tail :: "runtime \<Rightarrow> ustring \<Rightarrow> bool" where
  "clean_tail U post = ((\<forall>c\<in>set post. \<not> is_digit U c) \<and> (case post of [] \<Rightarrow> True | c # _ \<Rightarrow> \<not> is_word U c))"

text \<open>A pattern that cannot match unless the text starts with a decimal digit.\<close>

definition digit_first :: "runtime \<Rightarrow> regex \<Rightarrow> bool" where
  "digit_first U r = ((\<forall>p c. rmatch r (p, [], c) = []) \<and> (\<forall>p x xs c. \<not> is_digit U x \<longrightarrow> rmatch r (p, x # xs, c) = []))"

text \<open>
  The invariant of the specification for a calendar date in its rendering
  \<open>YYYY-MM-DD\<close>: ten characters, a year of at least \<open>min_year\<close>, a month in 1..12, a
  day in 1..31, and a real calendar date.  The specification asks for 1900.
\<close>

definition dec_val :: "ustring \<Rightarrow> nat" where
  "dec_val ds = foldl (\<lambda>a c. 10 * a + (c - 48)) 0 ds"

definition calendar_date_from :: "nat \<Rightarrow> ustring \<Rightarrow> bool" where
  "calendar_date_from min_year r =
     (length r = 10 \<and> r ! 4 = 45 \<and> r ! 7 = 45 \<and>
      list_all ascii_digit (take 4 r @ take 2 (drop 5 r) @ drop 8 r) \<and>
      min_year \<le> dec_val (take 4 r) \<and>
      1 \<le> dec_val (take 2 (drop 5 r)) \<and> dec_val (take 2 (drop 5 r)) \<le> 12 \<and>
      1 \<le> dec_val (drop 8 r) \<and> dec_val (drop 8 r) \<le> 31 \<and>
      valid_date (dec_val (take 4 r)) (dec_val (take 2 (drop 5 r))) (dec_val (drop 8 r)))"

definition CalendarDate_inv :: "ustring \<Rightarrow> bool" where
  "CalendarDate_inv r = calendar_date_from 1900 r"

text \<open>
  What \<open>dateutil\<close> answers on three texts, with \<open>dayfirst=True\<close> and \<open>fuzzy=True\<close>, by
  its documented rules: in \<open>12/13/2025\<close> the second number cannot be a month, so the
  first is the month; \<open>12 September\<close> has no year, which is taken from the default, the
  current date; in \<open>x2025-09-12\<close> the two numbers after the year are read day first.
  On every other text this stand-in finds no date; the development evaluates it on
  these three, on the empty text and on \<open>30.02.2025\<close> (no such day), where the library
  finds no date either.
\<close>

definition dateutil_points :: dateparser where
  "dateutil_points today s =
     (if s = ustr ''12/13/2025'' then Some (2025, 12, 13)
      else if s = ustr ''12 September'' then Some (fst today, 9, 12)
      else if s = ustr ''x2025-09-12'' then Some (2025, 12, 9)
      else None)"



text \<open>The three statuses of a row.\<close>

definition status_ok :: "ustring \<Rightarrow> bool" where
  "status_ok st = (st = ustr ''OK'' \<or> st = ustr ''NO_PAGE'' \<or> take 6 st = ustr ''ERROR:'')"

text \<open>
  A batch of three documents and one other file: rendering the first raises, the second
  has no page, the third has a page on which the OCR reads nothing.
\<close>

definition demo_collaborators :: "(ustring, nat) collaborators" where
  "demo_collaborators =
     \<lparr>render_first_page = (\<lambda>p. if p = ustr ''in/a.pdf'' then Inl (ustr ''boom'')
                               else if p = ustr ''in/b.pdf'' then Inr None else Inr (Some 0)),
      preprocess = (\<lambda>img. Inr img),
      image_to_string = (\<lambda>img. Inr [])\<rparr>"

definition demo_listing :: "ustring list" where
  "demo_listing = [ustr ''a.pdf'', ustr ''b.pdf'', ustr ''notes.txt'', ustr ''C.PDF'']"

section \<open>The date normalizer on numeric dates\<close>

text \<open>Facts about the character classes, and the patterns on a text without digits.\<close>

lemma digit_facts:
  "ascii_digit c \<Longrightarrow> is_digit U c"
  "ascii_digit c \<Longrightarrow> is_word U c"
  "ascii_digit c \<Longrightarrow> \<not> date_sep c"
  "ascii_digit c \<Longrightarrow> \<not> is_space c"
  "ascii_digit c \<Longrightarrow> digit_val U c = c - 48"
  by (auto simp: ascii_digit_def is_digit_def is_word_def ascii_alnum_def date_sep_def is_space_def digit_val_def)

lemma sep_facts:
  "date_sep c \<Longrightarrow> \<not> is_digit U c"
  "date_sep c \<Longrightarrow> \<not> is_word U c"
  "date_sep c \<Longrightarrow> \<not> is_space c"
  by (auto simp: ascii_digit_def is_digit_def is_word_def ascii_alnum_def date_sep_def is_space_def ascii_upper_def ascii_lower_def)

lemma digit_first_seq:
  "0 < m \<Longrightarrow> digit_first U (Seq (WordB w) (Seq (Grp g (Rep m n (is_digit U))) r))"
  by (auto simp: digit_first_def rep_max_def split: option.splits)

lemma search_no_digit:
  "digit_first U r \<Longrightarrow> \<forall>c\<in>set xs. \<not> is_digit U c \<Longrightarrow> search_from r i prev xs = None"
  by (induction xs arbitrary: i prev) (auto simp: digit_first_def match_here_def)

lemma search_skip:
  "digit_first U r \<Longrightarrow> \<forall>c\<in>set pre. \<not> is_digit U c \<Longrightarrow>
   search_from r i prev (pre @ rest) = search_from r (i + length pre) (if pre = [] then prev else Some (last pre)) rest"
proof (induction pre arbitrary: i prev)
  case Nil then show ?case by simp
next
  case (Cons a pre)
  have "match_here r i prev (a # pre @ rest) = None"
    using Cons.prems by (simp add: digit_first_def match_here_def)
  then have "search_from r i prev ((a # pre) @ rest) = search_from r (Suc i) (Some a) (pre @ rest)"
    by simp
  also have "\<dots> = search_from r (Suc i + length pre) (if pre = [] then Some a else Some (last pre)) rest"
    using Cons.IH [of "Suc i" "Some a"] Cons.prems by simp
  finally show ?case by simp
qed

lemma boundary_start: "nonword_prev U p \<Longrightarrow> is_word U x \<Longrightarrow> at_boundary (is_word U) p (x # xs)"
  by (auto simp: nonword_prev_def at_boundary_def split: option.splits)

lemma boundary_mid: "is_word U x \<Longrightarrow> is_word U y \<Longrightarrow> \<not> at_boundary (is_word U) (Some x) (y # xs)"
  "\<not> is_word U x \<Longrightarrow> is_word U y \<Longrightarrow> at_boundary (is_word U) (Some x) (y # xs)"
  "is_word U x \<Longrightarrow> \<not> is_word U y \<Longrightarrow> at_boundary (is_word U) (Some x) (y # xs)"
  "\<not> is_word U x \<Longrightarrow> \<not> is_word U y \<Longrightarrow> \<not> at_boundary (is_word U) (Some x) (y # xs)"
  by (auto simp: at_boundary_def)

lemma boundary_nil: "is_word U x \<Longrightarrow> at_boundary (is_word U) (Some x) []"
  by (simp add: at_boundary_def)

lemma digits12: "list_all ascii_digit ms \<Longrightarrow> length ms = 1 \<or> length ms = 2 \<Longrightarrow>
  (\<exists>a. ms = [a] \<and> ascii_digit a) \<or> (\<exists>a b. ms = [a, b] \<and> ascii_digit a \<and> ascii_digit b)"
  by (cases ms; cases "tl ms"; cases "tl (tl ms)") auto

lemma digits4: "list_all ascii_digit ys \<Longrightarrow> length ys = 4 \<Longrightarrow>
  \<exists>a b c d. ys = [a, b, c, d] \<and> ascii_digit a \<and> ascii_digit b \<and> ascii_digit c \<and> ascii_digit d"
  by (cases ys; cases "tl ys"; cases "tl (tl ys)"; cases "tl (tl (tl ys))"; cases "tl (tl (tl (tl ys)))") auto

lemma digits2: "list_all ascii_digit ys \<Longrightarrow> length ys = 2 \<Longrightarrow>
  \<exists>a b. ys = [a, b] \<and> ascii_digit a \<and> ascii_digit b"
  by (cases ys; cases "tl ys"; cases "tl (tl ys)") auto

lemma tail_cases: "clean_tail U post \<Longrightarrow>
  post = [] \<or> (\<exists>c post'. post = c # post' \<and> \<not> is_digit U c \<and> \<not> is_word U c \<and> takeWhile (is_digit U) post' = [] \<and> (\<forall>x\<in>set post'. \<not> is_digit U x))"
  by (cases post) (auto simp: clean_tail_def takeWhile_eq_Nil_iff)

lemma digit_tail: "\<forall>x\<in>set xs. \<not> is_digit U x \<Longrightarrow> 0 < m \<Longrightarrow>
  search_from (Seq (WordB w) (Seq (Grp g (Rep m n (is_digit U))) r)) j q xs = None"
  by (rule search_no_digit[OF digit_first_seq]) auto

lemmas rx_eval = date_rx1_def date_rx2_def match_here_def rep_max_def advance_def
  digit_facts sep_facts boundary_start boundary_mid boundary_nil digit_tail

lemma ymd_search1:
  assumes "list_all ascii_digit ys" "length ys = 4"
    "list_all ascii_digit ms" "length ms = 1 \<or> length ms = 2"
    "list_all ascii_digit ds" "length ds = 1 \<or> length ds = 2"
    "date_sep s1" "date_sep s2" "nonword_prev U p" "clean_tail U post"
  shows "search_from (date_rx1 U) i p (ys @ s1 # ms @ s2 # ds @ post) = None"
  using digits4[OF assms(1,2)] digits12[OF assms(3,4)] digits12[OF assms(5,6)] tail_cases[OF assms(10)] assms(7,8,9)
  apply (elim disjE exE conjE)
  apply (simp_all add: rx_eval)
  done

lemma ymd_search2:
  assumes "list_all ascii_digit ys" "length ys = 4"
    "list_all ascii_digit ms" "length ms = 1 \<or> length ms = 2"
    "list_all ascii_digit ds" "length ds = 1 \<or> length ds = 2"
    "date_sep s1" "date_sep s2" "nonword_prev U p" "clean_tail U post"
  shows "search_from (date_rx2 U) i p (ys @ s1 # ms @ s2 # ds @ post) =
      Some \<lparr>m_start = i, m_text = ys @ s1 # ms @ s2 # ds, m_caps = [(3, ds), (2, ms), (1, ys)]\<rparr>"
  using digits4[OF assms(1,2)] digits12[OF assms(3,4)] digits12[OF assms(5,6)] tail_cases[OF assms(10)] assms(7,8,9)
  apply (elim disjE exE conjE)
  apply (simp_all add: rx_eval)
  done

lemma dmy_search:
  assumes "list_all ascii_digit ys" "length ys = 4 \<or> length ys = 2"
    "list_all ascii_digit ms" "length ms = 1 \<or> length ms = 2"
    "list_all ascii_digit ds" "length ds = 1 \<or> length ds = 2"
    "date_sep s1" "date_sep s2" "nonword_prev U p" "clean_tail U post"
  shows "search_from (date_rx1 U) i p (ds @ s1 # ms @ s2 # ys @ post) = 
      Some \<lparr>m_start = i, m_text = ds @ s1 # ms @ s2 # ys, m_caps = [(3, ys), (2, ms), (1, ds)]\<rparr>"
proof -
  from assms(1,2) have "(\<exists>a b c d. ys = [a, b, c, d] \<and> ascii_digit a \<and> ascii_digit b \<and> ascii_digit c \<and> ascii_digit d)
    \<or> (\<exists>a b. ys = [a, b] \<and> ascii_digit a \<and> ascii_digit b)"
    using digits4 digits2 by blast
  then show ?thesis
  using digits12[OF assms(3,4)] digits12[OF assms(5,6)] tail_cases[OF assms(10)] assms(7,8,9)
  apply (elim disjE exE conjE)
  apply (simp_all add: rx_eval)
  done
qed

text \<open>Stripping a text whose date is surrounded by a context.\<close>

lemma dropWhile_mid: "ys \<noteq> [] \<Longrightarrow> \<not> P (hd ys) \<Longrightarrow> dropWhile P (xs @ ys) = dropWhile P xs @ ys"
  by (induction xs) (auto simp: neq_Nil_conv)

lemma strip_mid:
  assumes "frag \<noteq> []" "\<not> is_space (hd frag)" "\<not> is_space (last frag)"
  shows "strip (pre @ frag @ post) = dropWhile is_space pre @ frag @ rstrip_chars is_space post"
proof -
  have a: "dropWhile is_space (pre @ frag @ post) = dropWhile is_space pre @ frag @ post"
    using dropWhile_mid [of "frag @ post" is_space pre] assms by simp
  have "dropWhile is_space (rev post @ rev frag @ rev (dropWhile is_space pre))
      = dropWhile is_space (rev post) @ rev frag @ rev (dropWhile is_space pre)"
    using dropWhile_mid [of "rev frag @ rev (dropWhile is_space pre)" is_space "rev post"] assms
    by (simp add: hd_rev)
  then show ?thesis
    by (simp add: strip_def strip_chars_def rstrip_chars_def a)
qed

lemma context_strip:
  assumes "date_context U pre post"
  shows "\<forall>c\<in>set (dropWhile is_space pre). \<not> is_digit U c"
    and "nonword_prev U (if dropWhile is_space pre = [] then None else Some (last (dropWhile is_space pre)))"
    and "clean_tail U (rstrip_chars is_space post)"
proof -
  show "\<forall>c\<in>set (dropWhile is_space pre). \<not> is_digit U c"
    using assms by (auto simp: date_context_def list_all_iff dest: set_dropWhileD)
  have "dropWhile is_space pre \<noteq> [] \<Longrightarrow> last (dropWhile is_space pre) = last pre"
    by (induction pre) (auto split: if_splits)
  then show "nonword_prev U (if dropWhile is_space pre = [] then None else Some (last (dropWhile is_space pre)))"
    using assms by (auto simp: date_context_def nonword_prev_def)
  define R where "R = rev (dropWhile is_space (rev post))"
  have h: "R \<noteq> [] \<Longrightarrow> hd R = hd post \<and> post \<noteq> []"
    unfolding R_def by (induction post) (auto simp: dropWhile_append split: if_splits)
  have s: "set R \<subseteq> set post"
    unfolding R_def by (auto dest: set_dropWhileD)
  have d: "\<forall>c\<in>set post. \<not> is_digit U c" and w: "post = [] \<or> \<not> is_word U (hd post)"
    using assms by (auto simp: date_context_def list_all_iff)
  have "clean_tail U R"
  proof (cases R)
    case Nil
    then show ?thesis by (simp add: clean_tail_def)
  next
    case (Cons c R')
    then have "hd R = c" "R \<noteq> []" by auto
    with h w have "\<not> is_word U c" by auto
    moreover have "\<forall>x\<in>set R. \<not> is_digit U x" using s d by auto
    ultimately show ?thesis using Cons by (simp add: clean_tail_def)
  qed
  then show "clean_tail U (rstrip_chars is_space post)"
    by (simp add: rstrip_chars_def R_def)
qed

lemma digit_first_rx: "digit_first U (date_rx1 U)" "digit_first U (date_rx2 U)"
  by (simp_all add: date_rx1_def date_rx2_def digit_first_seq)

lemma re_search_context:
  assumes "digit_first U r" "\<forall>c\<in>set pre. \<not> is_digit U c"
  shows "re_search r (pre @ rest) = search_from r (length pre) (if pre = [] then None else Some (last pre)) rest"
  using search_skip [OF assms, of 0 None rest] by (simp add: re_search_def)

lemma int2_lt: "list_all ascii_digit ys \<Longrightarrow> length ys = 2 \<Longrightarrow> int_of_digits U ys < 100"
  by (drule (1) digits2) (auto simp: int_of_digits_def digit_facts ascii_digit_def)

lemma numeric_ymd:
  assumes "list_all ascii_digit ys" "length ys = 4"
    "list_all ascii_digit ms" "length ms = 1 \<or> length ms = 2"
    "list_all ascii_digit ds" "length ds = 1 \<or> length ds = 2"
    "date_sep s1" "date_sep s2"
    and pre: "\<forall>c\<in>set pre. \<not> is_digit U c" "nonword_prev U (if pre = [] then None else Some (last pre))"
    and post: "clean_tail U post"
    and valid: "valid_date (int_of_digits U ys) (int_of_digits U ms) (int_of_digits U ds)"
  shows "numeric_date U (DATE_REGEXES U) (pre @ (ys @ s1 # ms @ s2 # ds) @ post) =
    Some (strftime U (int_of_digits U ys, int_of_digits U ms, int_of_digits U ds))"
proof -
  have 1: "re_search (date_rx1 U) (pre @ ys @ s1 # ms @ s2 # ds @ post) = None"
    using ymd_search1 [OF assms(1-8) pre(2) post] 
    by (simp add: re_search_context [OF digit_first_rx(1) pre(1)])
  have 2: "re_search (date_rx2 U) (pre @ ys @ s1 # ms @ s2 # ds @ post) =
     Some \<lparr>m_start = length pre, m_text = ys @ s1 # ms @ s2 # ds, m_caps = [(3, ds), (2, ms), (1, ys)]\<rparr>"
    using ymd_search2 [OF assms(1-8) pre(2) post]
    by (simp add: re_search_context [OF digit_first_rx(2) pre(1)])
  show ?thesis
    using valid assms(2) by (simp add: DATE_REGEXES_def 1 2 date_of_groups_def group_def datetime_def)
qed

lemma numeric_dmy:
  assumes "list_all ascii_digit ys" "length ys = 4 \<or> length ys = 2"
    "list_all ascii_digit ms" "length ms = 1 \<or> length ms = 2"
    "list_all ascii_digit ds" "length ds = 1 \<or> length ds = 2"
    "date_sep s1" "date_sep s2"
    and pre: "\<forall>c\<in>set pre. \<not> is_digit U c" "nonword_prev U (if pre = [] then None else Some (last pre))"
    and post: "clean_tail U post"
    and valid: "valid_date (if length ys = 4 then int_of_digits U ys else 2000 + int_of_digits U ys)
       (int_of_digits U ms) (int_of_digits U ds)"
  shows "numeric_date U (DATE_REGEXES U) (pre @ (ds @ s1 # ms @ s2 # ys) @ post) =
    Some (strftime U (if length ys = 4 then int_of_digits U ys else 2000 + int_of_digits U ys,
       int_of_digits U ms, int_of_digits U ds))"
proof -
  have 1: "re_search (date_rx1 U) (pre @ ds @ s1 # ms @ s2 # ys @ post) =
     Some \<lparr>m_start = length pre, m_text = ds @ s1 # ms @ s2 # ys, m_caps = [(3, ys), (2, ms), (1, ds)]\<rparr>"
    using dmy_search [OF assms(1-8) pre(2) post]
    by (simp add: re_search_context [OF digit_first_rx(1) pre(1)])
  have ds4: "length ds \<noteq> 4" using assms(6) by auto
  show ?thesis
  proof (cases "length ys = 4")
    case True
    then show ?thesis using valid ds4
      by (simp add: DATE_REGEXES_def 1 date_of_groups_def group_def datetime_def)
  next
    case False
    then have "length ys = 2" using assms(2) by simp
    then have "int_of_digits U ys < 100" using int2_lt assms(1) by blast
    then show ?thesis using valid ds4 False
      by (simp add: DATE_REGEXES_def 1 date_of_groups_def group_def datetime_def)
  qed
qed

lemma digits_ends:
  "list_all ascii_digit xs \<Longrightarrow> xs \<noteq> [] \<Longrightarrow> \<not> is_space (hd xs) \<and> \<not> is_space (last xs)"
  by (cases xs) (auto simp: list_all_iff digit_facts)

lemma normalize_ymd:
  assumes "date_context U pre post"
    "list_all ascii_digit ys" "length ys = 4"
    "list_all ascii_digit ms" "length ms = 1 \<or> length ms = 2"
    "list_all ascii_digit ds" "length ds = 1 \<or> length ds = 2"
    "date_sep s1" "date_sep s2"
    "valid_date (int_of_digits U ys) (int_of_digits U ms) (int_of_digits U ds)"
  shows "normalize_date U dp today (pre @ ys @ [s1] @ ms @ [s2] @ ds @ post) =
    Some (strftime U (int_of_digits U ys, int_of_digits U ms, int_of_digits U ds))"
proof -
  let ?frag = "ys @ s1 # ms @ s2 # ds"
  have ne: "ys \<noteq> []" "ds \<noteq> []" using assms(3,7) by auto
  have "\<not> is_space (hd ?frag)" "\<not> is_space (last ?frag)"
    using digits_ends [OF assms(2) ne(1)] digits_ends [OF assms(6) ne(2)] ne by (simp_all add: hd_append)
  then have "strip (pre @ ?frag @ post) = dropWhile is_space pre @ ?frag @ rstrip_chars is_space post"
    using strip_mid [of ?frag pre post] by simp
  moreover have "numeric_date U (DATE_REGEXES U) (dropWhile is_space pre @ ?frag @ rstrip_chars is_space post) =
    Some (strftime U (int_of_digits U ys, int_of_digits U ms, int_of_digits U ds))"
    by (rule numeric_ymd [OF assms(2-9) context_strip [OF assms(1)] assms(10)])
  ultimately show ?thesis
    by (simp add: normalize_date_def)
qed

lemma normalize_dmy:
  assumes "date_context U pre post"
    "list_all ascii_digit ys" "length ys = 4 \<or> length ys = 2"
    "list_all ascii_digit ms" "length ms = 1 \<or> length ms = 2"
    "list_all ascii_digit ds" "length ds = 1 \<or> length ds = 2"
    "date_sep s1" "date_sep s2"
    "valid_date (if length ys = 4 then int_of_digits U ys else 2000 + int_of_digits U ys)
       (int_of_digits U ms) (int_of_digits U ds)"
  shows "normalize_date U dp today (pre @ ds @ [s1] @ ms @ [s2] @ ys @ post) =
    Some (strftime U (if length ys = 4 then int_of_digits U ys else 2000 + int_of_digits U ys,
       int_of_digits U ms, int_of_digits U ds))"
proof -
  let ?frag = "ds @ s1 # ms @ s2 # ys"
  have ne: "ys \<noteq> []" "ds \<noteq> []" using assms(3,7) by auto
  have "\<not> is_space (hd ?frag)" "\<not> is_space (last ?frag)"
    using digits_ends [OF assms(2) ne(1)] digits_ends [OF assms(6) ne(2)] ne by (simp_all add: hd_append)
  then have "strip (pre @ ?frag @ post) = dropWhile is_space pre @ ?frag @ rstrip_chars is_space post"
    using strip_mid [of ?frag pre post] by simp
  moreover have "numeric_date U (DATE_REGEXES U) (dropWhile is_space pre @ ?frag @ rstrip_chars is_space post) =
    Some (strftime U (if length ys = 4 then int_of_digits U ys else 2000 + int_of_digits U ys,
       int_of_digits U ms, int_of_digits U ds))"
    by (rule numeric_dmy [OF assms(2-9) context_strip [OF assms(1)] assms(10)])
  ultimately show ?thesis
    by (simp add: normalize_date_def)
qed

text \<open>
  Claim C1, amended.  A text that contains one numeric date, in the form year-month-day, in the
  form day-month-year with a year of four digits, or in the form day-month-year with a
  year of two digits (read as 2000 plus its value), is normalized to that calendar date:
  \<open>normalize_date\<close> returns the \<open>strftime\<close> rendering of the date, which is
  \<open>YYYY-MM-DD\<close> when the year has four digits or the platform pads it.  The date is written with ASCII digits, one or two for day and month,
  and separators among \<open>. - /\<close>; it is a real calendar date; around it the text has no
  digit and no word character touching the date.  The three groups are told apart by
  their widths, as \<open>date_of_groups\<close> does.
\<close>

theorem normalize_date_numeric_forms:
  assumes "date_context U pre post"
    and "list_all ascii_digit ys" and "list_all ascii_digit ms" and "list_all ascii_digit ds"
    and "length ms = 1 \<or> length ms = 2" and "length ds = 1 \<or> length ds = 2"
    and "date_sep s1" and "date_sep s2"
  shows "(length ys = 4 \<and> valid_date (int_of_digits U ys) (int_of_digits U ms) (int_of_digits U ds) \<longrightarrow>
           normalize_date U dp today (pre @ ys @ [s1] @ ms @ [s2] @ ds @ post) =
             Some (strftime U (int_of_digits U ys, int_of_digits U ms, int_of_digits U ds)) \<and>
           normalize_date U dp today (pre @ ds @ [s1] @ ms @ [s2] @ ys @ post) =
             Some (strftime U (int_of_digits U ys, int_of_digits U ms, int_of_digits U ds)))
       \<and> (length ys = 2 \<and> valid_date (2000 + int_of_digits U ys) (int_of_digits U ms) (int_of_digits U ds) \<longrightarrow>
           normalize_date U dp today (pre @ ds @ [s1] @ ms @ [s2] @ ys @ post) =
             Some (strftime U (2000 + int_of_digits U ys, int_of_digits U ms, int_of_digits U ds)))
       \<and> (year_padded U \<or> 1000 \<le> y \<longrightarrow>
           strftime U (y, mn, d) = four_digits y @ [45] @ two_digits mn @ [45] @ two_digits d)"
proof (intro conjI impI)
  assume a: "length ys = 4 \<and> valid_date (int_of_digits U ys) (int_of_digits U ms) (int_of_digits U ds)"
  show "normalize_date U dp today (pre @ ys @ [s1] @ ms @ [s2] @ ds @ post) =
      Some (strftime U (int_of_digits U ys, int_of_digits U ms, int_of_digits U ds))"
    using normalize_ymd [OF assms(1,2) _ assms(3,5,4,6,7,8)] a by simp
  show "normalize_date U dp today (pre @ ds @ [s1] @ ms @ [s2] @ ys @ post) =
      Some (strftime U (int_of_digits U ys, int_of_digits U ms, int_of_digits U ds))"
    using normalize_dmy [OF assms(1,2) _ assms(3,5,4,6,7,8), of dp today] a by simp
next
  assume a: "length ys = 2 \<and> valid_date (2000 + int_of_digits U ys) (int_of_digits U ms) (int_of_digits U ds)"
  show "normalize_date U dp today (pre @ ds @ [s1] @ ms @ [s2] @ ys @ post) =
      Some (strftime U (2000 + int_of_digits U ys, int_of_digits U ms, int_of_digits U ds))"
    using normalize_dmy [OF assms(1,2) _ assms(3,5,4,6,7,8), of dp today] a by simp
next
  assume "year_padded U \<or> 1000 \<le> y"
  then show "strftime U (y, mn, d) = four_digits y @ [45] @ two_digits mn @ [45] @ two_digits d"
    by (auto simp: strftime_def year_str_def)
qed

lemmas date_eval = ustr_def date_context_def ascii_digit_def date_sep_def is_digit_def is_word_def
  int_of_digits_def digit_val_def valid_date_def days_in_month_def is_leap_def strftime_def
  year_str_def four_digits_def two_digits_def digit_chr_def

text \<open>The three examples of the claim, each an instance of the theorem.\<close>

theorem normalize_date_numeric_forms_witness:
  "\<forall>U dp today.
     normalize_date U dp today (ustr ''2025-09-12'') = Some (ustr ''2025-09-12'') \<and>
     normalize_date U dp today (ustr ''12.09.2025'') = Some (ustr ''2025-09-12'') \<and>
     normalize_date U dp today (ustr ''12/9/25'') = Some (ustr ''2025-09-12'')"
proof (intro allI conjI)
  fix U :: runtime and dp :: dateparser and today :: date
  show "normalize_date U dp today (ustr ''2025-09-12'') = Some (ustr ''2025-09-12'')"
    using normalize_date_numeric_forms [of U "[]" "[]" "ustr ''2025''" "ustr ''09''" "ustr ''12''" 45 45 dp today]
    by (simp add: date_eval)
  show "normalize_date U dp today (ustr ''12.09.2025'') = Some (ustr ''2025-09-12'')"
    using normalize_date_numeric_forms [of U "[]" "[]" "ustr ''2025''" "ustr ''09''" "ustr ''12''" 46 46 dp today]
    by (simp add: date_eval)
  show "normalize_date U dp today (ustr ''12/9/25'') = Some (ustr ''2025-09-12'')"
    using normalize_date_numeric_forms [of U "[]" "[]" "ustr ''25''" "ustr ''9''" "ustr ''12''" 47 47 dp today]
    by (simp add: date_eval)
qed

section \<open>Evaluations on concrete texts\<close>

lemmas class_eval = ascii_digit_def ascii_upper_def ascii_lower_def ascii_alnum_def is_digit_def
  is_word_def is_space_def ci_lit_def ci_extra_def ci_letter_def invno_char_def alnum_ci_def
  domain_char_def colon_space_def dash_slash_def cz_letter_def cz_alnum_def name_edge_def
  reserved_char_def date_sep_def

lemmas rx_run = ustr_def re_search_def match_here_def rep_max_def advance_def at_boundary_def
  group_def opt_def re_sub_def sub_from.simps re_finditer_def find_from.simps
  strip_def strip_chars_def rstrip_chars_def

lemmas invoice_eval = extract_invoice_no_def INVOICE_NO_REGEXES_def loose_invoice_rx_def
  clean_invoice_raw_def py_upper_def upper_char_def

lemmas date_run = normalize_date_def DATE_REGEXES_def date_rx1_def date_rx2_def date_rx3_def
  date_of_groups_def int_of_digits_def digit_val_def datetime_def valid_date_def
  days_in_month_def is_leap_def strftime_def year_str_def four_digits_def two_digits_def
  digit_chr_def fallback_parse_def


text \<open>
  Claim C2.  On the text \<open>Invoice No: FA-2025/0099\<close> the third labelled pattern captures
  \<open>No\<close>, which is too short to be accepted; the fourth then matches \<open>Inv\<close> at the start of
  \<open>Invoice\<close> and captures \<open>oice\<close>.  The function returns \<open>OICE\<close>, not the number.
\<close>

theorem extract_invoice_no_label_colon:
  "extract_invoice_no U (ustr ''Invoice No: FA-2025/0099'') = Some (ustr ''OICE'')"
  by (simp add: invoice_eval class_eval rx_run)

text \<open>With the dot that the pattern expects after \<open>No\<close>, the number is returned.\<close>

lemma extract_invoice_no_label_dot:
  "extract_invoice_no U (ustr ''Invoice No. FA-2025/0099'') = Some (ustr ''FA-2025/0099'')"
  by (simp add: invoice_eval class_eval rx_run)

text \<open>
  Claim C10, as stated, fails: in \<open>_hello_\<close> the run \<open>hello\<close> has five letters, but the
  underscores around it are word characters, so \<open>\b\<close> holds on neither side of it.
\<close>

theorem extract_invoice_no_underscores:
  "\<forall>U. extract_invoice_no U (ustr ''_hello_'') = None"
  by (simp add: invoice_eval class_eval rx_run)


text \<open>
  Claim C4, as stated, fails: a year before 1900 is accepted.
\<close>

theorem normalize_date_year_1800:
  "\<forall>U dp today. normalize_date U dp today (ustr ''12.09.1800'') = Some (ustr ''1800-09-12'') \<and>
     \<not> CalendarDate_inv (ustr ''1800-09-12'')"
  by (simp add: date_run class_eval rx_run CalendarDate_inv_def calendar_date_from_def dec_val_def)

text \<open>
  Claim C3, as stated, fails: \<open>12/13/2025\<close> matches the first pattern with month 13,
  which is no calendar date; the text then goes to the fallback parser, and the result
  is the date that the parser finds.
\<close>

theorem normalize_date_month_13:
  "\<forall>U today. (\<exists>m. re_search (date_rx1 U) (ustr ''12/13/2025'') = Some m \<and> date_of_groups U m = None) \<and>
     normalize_date U dateutil_points today (ustr ''12/13/2025'') = Some (ustr ''2025-12-13'')"
  by (simp add: date_run class_eval rx_run dateutil_points_def)


text \<open>
  Claim C8.  With the three fields missing, the name is made of the three sentinel
  tokens, which differ from one another; it has no path separator and no reserved
  character, and it ends in \<open>.pdf\<close>.
\<close>

theorem build_new_name_sentinels:
  "build_new_name U None None None = ustr ''0000-00-00 Neznamy-dodavatel Bez-cisla.pdf'' \<and>
   ustr ''0000-00-00'' \<noteq> ustr ''Neznamy-dodavatel'' \<and> ustr ''0000-00-00'' \<noteq> ustr ''Bez-cisla'' \<and>
   ustr ''Neznamy-dodavatel'' \<noteq> ustr ''Bez-cisla'' \<and>
   list_all (\<lambda>c. c \<noteq> 47 \<and> c \<noteq> 92 \<and> \<not> reserved_char c) (build_new_name U None None None) \<and>
   ends_with (build_new_name U None None None) (ustr ''.pdf'')"
proof -
  have a: "build_new_name U None None None = ustr ''0000-00-00 Neznamy-dodavatel Bez-cisla.pdf''"
    unfolding build_new_name_def sanitize_filename_def Let_def
    by (simp add: or_default_def unidecode_def replace_char_def spaces_rx_def class_eval rx_run)
  show ?thesis
    unfolding a by (simp add: ustr_def reserved_char_def ends_with_def)
qed

section \<open>What the date normalizer returns\<close>

lemma datetime_Some: "datetime y mn d = Some dt \<Longrightarrow> dt = (y, mn, d) \<and> valid_date y mn d"
  by (auto simp: datetime_def split: if_splits)

lemma date_of_groups_valid: "date_of_groups U m = Some (y, mn, d) \<Longrightarrow> valid_date y mn d"
  unfolding date_of_groups_def Let_def by (auto split: if_splits dest: datetime_Some)

lemma numeric_date_valid:
  "numeric_date U rs s = Some r \<Longrightarrow> \<exists>y mn d. r = strftime U (y, mn, d) \<and> valid_date y mn d"
proof (induction rs)
  case Nil
  then show ?case by simp
next
  case (Cons rgx rs)
  then show ?case
    by (auto split: option.splits dest: date_of_groups_valid)
qed

lemma fallback_parse_valid: "fallback_parse dp today s = Some (y, mn, d) \<Longrightarrow> valid_date y mn d"
  by (auto simp: fallback_parse_def split: option.splits dest: datetime_Some)

lemma normalize_date_valid:
  assumes "normalize_date U dp today s = Some r"
  shows "\<exists>y mn d. r = strftime U (y, mn, d) \<and> valid_date y mn d"
proof (cases "numeric_date U (DATE_REGEXES U) (strip s)")
  case None
  then obtain dt where "fallback_parse dp today (strip s) = Some dt" "r = strftime U dt"
    using assms by (auto simp: normalize_date_def split: option.splits)
  then show ?thesis
    by (cases dt) (auto dest: fallback_parse_valid)
next
  case (Some r')
  then have "r' = r" using assms by (simp add: normalize_date_def)
  then show ?thesis using Some numeric_date_valid by blast
qed

lemma days_in_month_le: "days_in_month y mn \<le> 31"
  by (simp add: days_in_month_def)

lemma digit_chr_ascii: "ascii_digit (digit_chr n)"
proof -
  have "n mod 10 \<le> 9" using mod_less_divisor [of 10 n] by linarith
  then show ?thesis by (simp add: ascii_digit_def digit_chr_def)
qed

lemma dec_val_four:
  assumes "y < 10000"
  shows "dec_val (four_digits y) = y"
proof -
  have d: "y div 100 = y div 10 div 10" "y div 1000 = y div 10 div 10 div 10"
    by (simp_all add: div_mult2_eq)
  have "y div 10 div 10 div 10 < 10" using assms by simp
  then have m: "y div 10 div 10 div 10 mod 10 = y div 10 div 10 div 10" by simp
  have "dec_val (four_digits y) =
      10 * (10 * (10 * (y div 10 div 10 div 10 mod 10) + y div 10 div 10 mod 10) + y div 10 mod 10) + y mod 10"
    by (simp add: dec_val_def four_digits_def digit_chr_def d)
  also have "\<dots> = y"
    unfolding m by (simp only: div_mult_mod_eq mult_div_mod_eq)
  finally show ?thesis .
qed

lemma dec_val_two: "n < 100 \<Longrightarrow> dec_val (two_digits n) = n"
  unfolding dec_val_def two_digits_def digit_chr_def by simp

lemma iso_calendar_date:
  assumes "valid_date y mn d"
  shows "calendar_date_from 1 (four_digits y @ [45] @ two_digits mn @ [45] @ two_digits d)"
proof -
  have b: "y < 10000" "mn < 100" "d < 100" "1 \<le> y" "1 \<le> mn" "mn \<le> 12" "1 \<le> d" "d \<le> 31"
    using assms days_in_month_le [of y mn] by (auto simp: valid_date_def)
  have f: "take 4 (four_digits y @ [45] @ two_digits mn @ [45] @ two_digits d) = four_digits y"
    "take 2 (drop 5 (four_digits y @ [45] @ two_digits mn @ [45] @ two_digits d)) = two_digits mn"
    "drop 8 (four_digits y @ [45] @ two_digits mn @ [45] @ two_digits d) = two_digits d"
    by (simp_all add: four_digits_def two_digits_def)
  have g: "list_all ascii_digit (four_digits y @ two_digits mn @ two_digits d)"
    by (simp add: four_digits_def two_digits_def digit_chr_ascii)
  have l: "length (four_digits y @ [45] @ two_digits mn @ [45] @ two_digits d) = 10"
    "(four_digits y @ [45] @ two_digits mn @ [45] @ two_digits d) ! 4 = 45"
    "(four_digits y @ [45] @ two_digits mn @ [45] @ two_digits d) ! 7 = 45"
    by (simp_all add: four_digits_def two_digits_def)
  show ?thesis
    unfolding calendar_date_from_def f l
    using b g assms by (simp add: dec_val_four dec_val_two)
qed

text \<open>
  Claim C4, amended.  Every string that \<open>normalize_date\<close> returns is the rendering of a
  real calendar date with a year from 1 to 9999 (not from 1900), a month from 1 to 12 and
  a day from 1 to 31; it has the fixed width \<open>YYYY-MM-DD\<close> when the year has four
  digits or the platform pads the year.
\<close>

theorem normalize_date_calendar:
  assumes "normalize_date U dp today s = Some r"
  shows "\<exists>y mn d. r = strftime U (y, mn, d) \<and> 1 \<le> y \<and> y \<le> 9999 \<and> 1 \<le> mn \<and> mn \<le> 12 \<and>
           1 \<le> d \<and> d \<le> 31 \<and> valid_date y mn d \<and>
           (year_padded U \<or> 1000 \<le> y \<longrightarrow> calendar_date_from 1 r)"
proof -
  obtain y mn d where r: "r = strftime U (y, mn, d)" and v: "valid_date y mn d"
    using normalize_date_valid [OF assms] by blast
  have "year_padded U \<or> 1000 \<le> y \<longrightarrow> calendar_date_from 1 r"
    using iso_calendar_date [OF v] by (auto simp: r strftime_def year_str_def)
  moreover have "1 \<le> y \<and> y \<le> 9999 \<and> 1 \<le> mn \<and> mn \<le> 12 \<and> 1 \<le> d \<and> d \<le> 31"
    using v days_in_month_le [of y mn] by (auto simp: valid_date_def)
  ultimately show ?thesis using r v by blast
qed

theorem normalize_date_calendar_witness:
  "\<forall>U dp today. normalize_date U dp today (ustr ''12.09.1800'') = Some (ustr ''1800-09-12'') \<and>
     (\<exists>y mn d. ustr ''1800-09-12'' = strftime U (y, mn, d) \<and> 1 \<le> y \<and> y \<le> 9999 \<and> 1 \<le> mn \<and> mn \<le> 12 \<and>
           1 \<le> d \<and> d \<le> 31 \<and> valid_date y mn d \<and>
           (year_padded U \<or> 1000 \<le> y \<longrightarrow> calendar_date_from 1 (ustr ''1800-09-12'')))"
proof (intro allI)
  fix U :: runtime and dp :: dateparser and today :: date
  have e: "normalize_date U dp today (ustr ''12.09.1800'') = Some (ustr ''1800-09-12'')"
    by (simp add: date_run class_eval rx_run)
  show "normalize_date U dp today (ustr ''12.09.1800'') = Some (ustr ''1800-09-12'') \<and>
     (\<exists>y mn d. ustr ''1800-09-12'' = strftime U (y, mn, d) \<and> 1 \<le> y \<and> y \<le> 9999 \<and> 1 \<le> mn \<and> mn \<le> 12 \<and>
           1 \<le> d \<and> d \<le> 31 \<and> valid_date y mn d \<and>
           (year_padded U \<or> 1000 \<le> y \<longrightarrow> calendar_date_from 1 (ustr ''1800-09-12'')))"
    using normalize_date_calendar [OF e] e by blast
qed

section \<open>Invalid numeric dates and the fallback parser\<close>

lemma numeric_date_None:
  "\<forall>rgx\<in>set rs. \<forall>m. re_search rgx s = Some m \<longrightarrow> date_of_groups U m = None \<Longrightarrow>
   numeric_date U rs s = None"
  by (induction rs) (auto split: option.splits)

text \<open>
  Claim C3, amended.  When every match of a numeric pattern in the fragment is an
  invalid calendar combination, \<open>normalize_date\<close> raises no error and returns what the
  fallback parser finds in the fragment: no date when the parser finds none, and
  otherwise the date of the parser.
\<close>

theorem normalize_date_invalid_numeric:
  assumes "\<forall>rgx\<in>set (DATE_REGEXES U). \<forall>m. re_search rgx (strip s) = Some m \<longrightarrow> date_of_groups U m = None"
  shows "normalize_date U dp today s = map_option (strftime U) (fallback_parse dp today (strip s)) \<and>
         (dp today (strip s) = None \<longrightarrow> normalize_date U dp today s = None)"
  using numeric_date_None [OF assms]
  by (auto simp: normalize_date_def fallback_parse_def split: option.splits)

theorem normalize_date_invalid_numeric_witness:
  "\<forall>U today. normalize_date U dateutil_points today (ustr ''30.02.2025'') = None"
proof (intro allI)
  fix U :: runtime and today :: date
  have h: "\<forall>rgx\<in>set (DATE_REGEXES U). \<forall>m. re_search rgx (strip (ustr ''30.02.2025'')) = Some m \<longrightarrow>
      date_of_groups U m = None"
    by (simp add: date_run class_eval rx_run)
  have "dateutil_points today (strip (ustr ''30.02.2025'')) = None"
    by (simp add: dateutil_points_def class_eval rx_run)
  then show "normalize_date U dateutil_points today (ustr ''30.02.2025'') = None"
    using normalize_date_invalid_numeric [OF h, of dateutil_points today] by blast
qed

section \<open>The current date\<close>




lemmas hint_eval = find_first_by_hints_def nonempty_lines_def splitlines_def DATE_HINT_WORDS_def
  hint_candidates_def is_linebreak_def



section \<open>Texts on which the numeric patterns miss the date\<close>

text \<open>
  Claim C1, as stated, fails.  In \<open>x2025-09-12\<close> a letter touches the date: no numeric
  pattern matches, and the fallback parser reads the 9th of December.  In
  \<open>11-22-3344, 12/09/2025\<close> the first pattern matches \<open>11-22-3344\<close>, which is no date, and
  the date after it is never reached.  The year 202 of \<open>12.09.0202\<close> is printed with
  three digits where the platform does not pad it.
\<close>

theorem normalize_date_outside_forms:
  "(\<forall>U today. normalize_date U dateutil_points today (ustr ''x2025-09-12'') = Some (ustr ''2025-12-09'')) \<and>
   (\<forall>U. numeric_date U (DATE_REGEXES U) (strip (ustr ''11-22-3344, 12/09/2025'')) = None) \<and>
   (\<forall>U dp today. normalize_date U dp today (ustr ''12.09.0202'') =
       Some (if year_padded U then ustr ''0202-09-12'' else ustr ''202-09-12''))"
proof (intro conjI allI)
  fix U :: runtime and dp :: dateparser and today :: date
  show "normalize_date U dateutil_points today (ustr ''x2025-09-12'') = Some (ustr ''2025-12-09'')"
    by (simp add: date_run class_eval rx_run dateutil_points_def)
  show "numeric_date U (DATE_REGEXES U) (strip (ustr ''11-22-3344, 12/09/2025'')) = None"
    by (simp add: date_run class_eval rx_run)
  show "normalize_date U dp today (ustr ''12.09.0202'') =
       Some (if year_padded U then ustr ''0202-09-12'' else ustr ''202-09-12'')"
    by (simp add: date_run class_eval rx_run str_nat.simps)
qed

section \<open>The loose invoice pattern on a delimited run\<close>

lemma seq_nonempty:
  "st' \<in> set (rmatch a st) \<Longrightarrow> rmatch b st' \<noteq> [] \<Longrightarrow> rmatch (Seq a b) st \<noteq> []"
  by auto

lemma alt_right: "x \<in> set (rmatch b st) \<Longrightarrow> x \<in> set (rmatch (Alt a b) st)"
  by simp

lemma grp_member:
  "(p', rest', caps') \<in> set (rmatch r (p, rest, caps)) \<Longrightarrow>
   (p', rest', (g, take (length rest - length rest') rest) # caps') \<in> set (rmatch (Grp g r) (p, rest, caps))"
  by force

lemma search_hit:
  "match_here r (i + length pre) (if pre = [] then prev else Some (last pre)) rest \<noteq> None \<Longrightarrow>
   search_from r i prev (pre @ rest) \<noteq> None"
proof (induction pre arbitrary: i prev)
  case Nil
  then show ?case by (cases rest) (auto split: option.splits)
next
  case (Cons a pre)
  have "search_from r (Suc i) (Some a) (pre @ rest) \<noteq> None"
    by (rule Cons.IH) (use Cons.prems in \<open>simp split: if_splits\<close>)
  then show ?case by (auto split: option.splits)
qed

lemma alnum_facts:
  "ascii_alnum c \<Longrightarrow> alnum_ci c"
  "ascii_alnum c \<Longrightarrow> is_word U c"
  by (auto simp: ascii_alnum_def alnum_ci_def ci_letter_def is_word_def ascii_digit_def
      ascii_upper_def ascii_lower_def)

lemma rep_whole_run:
  assumes "\<forall>c\<in>set run. q c" "m \<le> length run" "run \<noteq> []"
  shows "(Some (last run), post, caps) \<in> set (rmatch (Rep m None q) (p, run @ post, caps))"
proof -
  have "takeWhile q (run @ post) = run @ takeWhile q post"
    using assms(1) by (simp add: takeWhile_append2)
  then have "length run < Suc (rep_max None q (run @ post))"
    by (simp add: rep_max_def)
  then have "length run \<in> set (rev [m ..< Suc (rep_max None q (run @ post))])"
    using assms(2) by (simp only: set_rev set_upt atLeastLessThan_iff)
  moreover have "advance (length run) (p, run @ post, caps) = (Some (last run), post, caps)"
    using assms(3) by (simp add: advance_def nth_append last_conv_nth)
  ultimately show ?thesis
    by (simp only: rmatch.simps set_map) (metis imageI)
qed

lemma loose_match:
  assumes "list_all ascii_alnum run" "5 \<le> length run" "nonword_prev U p"
    "post = [] \<or> \<not> is_word U (hd post)"
  shows "rmatch (loose_invoice_rx U) (p, run @ post, []) \<noteq> []"
proof -
  have ne: "run \<noteq> []" using assms(2) by auto
  have w: "is_word U (hd run)" "is_word U (last run)"
    using assms(1) ne by (auto simp: list_all_iff alnum_facts)
  let ?g = "Alt (seqs [Rep 1 (Some 4) ci_letter, Rep 0 (Some 1) dash_slash,
                       Rep 2 (Some 4) (is_digit U), Cls dash_slash, Rep 2 (Some 6) (is_digit U)])
              (Alt (seqs [Rep 3 None ascii_digit, Cls (\<lambda>c. c = 47), Rep 2 (Some 4) ascii_digit])
                   (Rep 5 None alnum_ci))"
  have 1: "(p, run @ post, []) \<in> set (rmatch (WordB (is_word U)) (p, run @ post, []))"
    using assms(3) w(1) ne by (cases run) (auto simp: at_boundary_def nonword_prev_def split: option.splits)
  have "(Some (last run), post, []) \<in> set (rmatch (Rep 5 None alnum_ci) (p, run @ post, []))"
    by (rule rep_whole_run) (use assms(1,2) ne in \<open>auto simp: list_all_iff alnum_facts\<close>)
  then have "(Some (last run), post, []) \<in> set (rmatch ?g (p, run @ post, []))"
    by (intro alt_right)
  then have "(Some (last run), post, (1, take (length (run @ post) - length post) (run @ post)) # [])
      \<in> set (rmatch (Grp 1 ?g) (p, run @ post, []))"
    by (rule grp_member)
  then have 2: "(Some (last run), post, [(1, run)]) \<in> set (rmatch (Grp 1 ?g) (p, run @ post, []))"
    by (simp only: length_append add_diff_cancel_right' take_all_iff append_eq_conv_conj take_append diff_self_eq_0 take_0 append_Nil2 order_refl take_all)
  have 3: "rmatch (WordB (is_word U)) (Some (last run), post, [(1, run)]) \<noteq> []"
    using assms(4) w(2) by (cases post) (auto simp: at_boundary_def)
  have "rmatch (Seq (Grp 1 ?g) (WordB (is_word U))) (p, run @ post, []) \<noteq> []"
    by (rule seq_nonempty [OF 2 3])
  then show ?thesis
    unfolding loose_invoice_rx_def by (rule seq_nonempty [OF 1])
qed

text \<open>
  Claim C10, amended.  When the text contains a run of at least five ASCII letters or
  digits that is delimited on both sides by the end of the text or by a character that
  is not a word character (so not by an underscore or a letter beyond ASCII),
  \<open>extract_invoice_no\<close> returns a value.
\<close>

theorem extract_invoice_no_delimited_run:
  assumes "list_all ascii_alnum run" and "5 \<le> length run"
    and "pre = [] \<or> \<not> is_word U (last pre)" and "post = [] \<or> \<not> is_word U (hd post)"
  shows "\<exists>v. extract_invoice_no U (pre @ run @ post) = Some v"
proof -
  have "nonword_prev U (if pre = [] then None else Some (last pre))"
    using assms(3) by (auto simp: nonword_prev_def)
  then have "rmatch (loose_invoice_rx U) (if pre = [] then None else Some (last pre), run @ post, []) \<noteq> []"
    using loose_match [OF assms(1,2) _ assms(4)] by blast
  then obtain st sts where
    "rmatch (loose_invoice_rx U) (if pre = [] then None else Some (last pre), run @ post, []) = st # sts"
    by (auto simp: neq_Nil_conv)
  then have "match_here (loose_invoice_rx U) (0 + length pre) (if pre = [] then None else Some (last pre))
      (run @ post) \<noteq> None"
    unfolding match_here_def by (cases st) (simp split: prod.splits)
  then have "re_search (loose_invoice_rx U) (pre @ run @ post) \<noteq> None"
    unfolding re_search_def by (rule search_hit)
  then show ?thesis
    by (auto simp: extract_invoice_no_def split: option.splits)
qed

theorem extract_invoice_no_delimited_run_witness:
  "\<forall>U. \<exists>v. extract_invoice_no U (ustr ''see hello, world'') = Some v"
proof
  fix U :: runtime
  have "\<exists>v. extract_invoice_no U (ustr ''see '' @ ustr ''hello'' @ ustr '', world'') = Some v"
    by (rule extract_invoice_no_delimited_run) (simp_all add: ustr_def class_eval)
  then show "\<exists>v. extract_invoice_no U (ustr ''see hello, world'') = Some v"
    by (simp add: ustr_def)
qed

section \<open>Cleaning a clean name\<close>






section \<open>Avoiding an overwrite\<close>

lemma splitext_append: "fst (splitext p) @ snd (splitext p) = p"
  unfolding splitext_def Let_def by simp

lemma rfind_from_spec:
  "(rfind_from c xs i found = found \<and> c \<notin> set xs) \<or>
   (i \<le> rfind_from c xs i found \<and> rfind_from c xs i found < i + int (length xs) \<and>
    xs ! nat (rfind_from c xs i found - i) = c \<and>
    c \<notin> set (drop (nat (rfind_from c xs i found - i) + 1) xs))"
proof (induction xs arbitrary: i found)
  case Nil
  then show ?case by simp
next
  case (Cons x xs)
  let ?f = "if x = c then i else found"
  let ?r = "rfind_from c xs (i + 1) ?f"
  have r: "rfind_from c (x # xs) i found = ?r" by simp
  from Cons [of "i + 1" ?f] consider
    (a) "?r = ?f" "c \<notin> set xs" |
    (b) "i + 1 \<le> ?r" "?r < i + 1 + int (length xs)" "xs ! nat (?r - (i + 1)) = c"
        "c \<notin> set (drop (nat (?r - (i + 1)) + 1) xs)"
    by blast
  then show ?case
  proof cases
    case a
    show ?thesis
    proof (cases "x = c")
      case True
      then have "?r = i" using a(1) by simp
      then show ?thesis unfolding r using True a(2) by simp
    next
      case False
      then have "?r = found" using a(1) by simp
      then show ?thesis unfolding r using False a(2) by simp
    qed
  next
    case b
    have n: "nat (?r - i) = Suc (nat (?r - (i + 1)))" using b(1) by simp
    show ?thesis unfolding r
      apply (rule disjI2)
      using b unfolding n by simp
  qed
qed

lemma splitext_extension:
  "snd (splitext p) = [] \<or>
   (hd (snd (splitext p)) = 46 \<and> 46 \<notin> set (tl (snd (splitext p))) \<and> 47 \<notin> set (snd (splitext p)))"
proof (cases "snd (splitext p) = []")
  case True
  then show ?thesis by simp
next
  case False
  let ?s = "rfind 47 p" and ?d = "rfind 46 p"
  have gt: "?d > ?s" and e: "snd (splitext p) = drop (nat ?d) p"
    using False unfolding splitext_def Let_def by (auto split: if_splits)
  have s1: "?s \<ge> -1"
    using rfind_from_spec [of 47 p 0 "-1"] by (auto simp: rfind_def)
  then have d0: "0 \<le> ?d" using gt by simp
  have dspec: "?d < int (length p)" "p ! nat ?d = 46" "46 \<notin> set (drop (nat ?d + 1) p)"
    using rfind_from_spec [of 46 p 0 "-1"] d0 by (auto simp: rfind_def)
  have ne: "drop (nat ?d) p \<noteq> []" using dspec(1) d0 by simp
  have h: "hd (drop (nat ?d) p) = 46"
    using dspec(1,2) d0 by (simp add: hd_drop_conv_nth)
  have t: "tl (drop (nat ?d) p) = drop (nat ?d + 1) p"
    by (simp add: tl_drop drop_Suc)
  have "47 \<notin> set (drop (nat (?s + 1)) p)"
  proof (cases "47 \<in> set p")
    case False
    then show ?thesis by (auto dest: in_set_dropD)
  next
    case True
    then have "0 \<le> ?s" "47 \<notin> set (drop (nat ?s + 1) p)"
      using rfind_from_spec [of 47 p 0 "-1"] by (auto simp: rfind_def)
    then show ?thesis by (simp add: nat_add_distrib)
  qed
  moreover have "set (drop (nat ?d) p) \<subseteq> set (drop (nat (?s + 1)) p)"
    using gt s1 by (intro set_drop_subset_set_drop) simp
  ultimately have "47 \<notin> set (drop (nat ?d) p)" by blast
  then show ?thesis using h t dspec(3) unfolding e by simp
qed

lemma avoid_overwrite_alt:
  "avoid_overwrite existing dst = avoid_loop existing (fst (splitext dst)) (snd (splitext dst)) dst 2"
  by (simp add: avoid_overwrite_def case_prod_unfold)

lemma avoid_loop_free: "avoid_loop existing base ext dst i \<notin> set existing"
proof (induction existing base ext dst i rule: avoid_loop.induct)
  case (1 existing base ext dst i)
  then show ?case
    by (cases "dst \<in> set existing") (simp_all add: avoid_loop.simps [of existing base ext dst i])
qed

lemma avoid_loop_first:
  "dst \<in> set existing \<Longrightarrow>
   \<exists>k\<ge>i. avoid_loop existing base ext dst i = variant base ext k \<and>
          (\<forall>j. i \<le> j \<and> j < k \<longrightarrow> variant base ext j \<in> set existing)"
proof (induction existing base ext dst i rule: avoid_loop.induct)
  case (1 existing base ext dst i)
  have step: "avoid_loop existing base ext dst i = avoid_loop existing base ext (variant base ext i) (Suc i)"
    using "1.prems" by (simp add: avoid_loop.simps [of existing base ext dst i])
  show ?case
  proof (cases "variant base ext i \<in> set existing")
    case False
    then have "avoid_loop existing base ext dst i = variant base ext i"
      using step by (simp add: avoid_loop.simps [of existing base ext "variant base ext i"])
    then show ?thesis by auto
  next
    case True
    from "1.IH" [OF "1.prems" True] obtain k where k: "Suc i \<le> k"
      "avoid_loop existing base ext (variant base ext i) (Suc i) = variant base ext k"
      "\<forall>j. Suc i \<le> j \<and> j < k \<longrightarrow> variant base ext j \<in> set existing"
      by blast
    have "\<forall>j. i \<le> j \<and> j < k \<longrightarrow> variant base ext j \<in> set existing"
    proof (intro allI impI)
      fix j assume "i \<le> j \<and> j < k"
      then show "variant base ext j \<in> set existing"
        using True k(3) by (cases "j = i") auto
    qed
    then show ?thesis using k step by (intro exI [of _ k]) auto
  qed
qed

text \<open>
  Claim C5.  A proposed name that does not exist is returned as it is.  Otherwise the
  result is the first free name among \<open>base (2)ext\<close>, \<open>base (3)ext\<close>, ... where \<open>base\<close>
  and \<open>ext\<close> split the proposed name before its extension (\<open>ext\<close> is empty, or it is
  the last dot of the name with what follows it, in the last component of the path):
  every candidate with a smaller number exists.  The result never exists.  The names
  that exist are a finite list, as a directory is.
\<close>

theorem avoid_overwrite_first_free:
  "(dst \<notin> set existing \<longrightarrow> avoid_overwrite existing dst = dst) \<and>
   (dst \<in> set existing \<longrightarrow>
      (\<exists>k\<ge>2. avoid_overwrite existing dst = variant (fst (splitext dst)) (snd (splitext dst)) k \<and>
         (\<forall>j. 2 \<le> j \<and> j < k \<longrightarrow> variant (fst (splitext dst)) (snd (splitext dst)) j \<in> set existing))) \<and>
   avoid_overwrite existing dst \<notin> set existing \<and>
   fst (splitext dst) @ snd (splitext dst) = dst \<and>
   (snd (splitext dst) = [] \<or>
    (hd (snd (splitext dst)) = 46 \<and> 46 \<notin> set (tl (snd (splitext dst))) \<and>
     47 \<notin> set (snd (splitext dst))))"
proof (intro conjI impI)
  assume "dst \<notin> set existing"
  then show "avoid_overwrite existing dst = dst"
    by (simp add: avoid_overwrite_alt avoid_loop.simps [of existing _ _ dst 2])
next
  assume "dst \<in> set existing"
  then show "\<exists>k\<ge>2. avoid_overwrite existing dst = variant (fst (splitext dst)) (snd (splitext dst)) k \<and>
         (\<forall>j. 2 \<le> j \<and> j < k \<longrightarrow> variant (fst (splitext dst)) (snd (splitext dst)) j \<in> set existing)"
    using avoid_loop_first [of dst existing 2 "fst (splitext dst)" "snd (splitext dst)"]
    by (simp add: avoid_overwrite_alt)
next
  show "avoid_overwrite existing dst \<notin> set existing"
    by (simp add: avoid_overwrite_alt avoid_loop_free)
next
  show "fst (splitext dst) @ snd (splitext dst) = dst"
    by (rule splitext_append)
next
  show "snd (splitext dst) = [] \<or>
    (hd (snd (splitext dst)) = 46 \<and> 46 \<notin> set (tl (snd (splitext dst))) \<and>
     47 \<notin> set (snd (splitext dst)))"
    by (rule splitext_extension)
qed

lemmas path_eval = splitext_def rfind_def variant_def str_nat.simps digit_chr_def

theorem avoid_overwrite_first_free_witness:
  "avoid_overwrite [ustr ''in/a.pdf'', ustr ''in/a (2).pdf''] (ustr ''in/a.pdf'') = ustr ''in/a (3).pdf'' \<and>
   avoid_overwrite [ustr ''in/a.pdf'', ustr ''in/a (2).pdf''] (ustr ''in/a.pdf'')
     \<notin> set [ustr ''in/a.pdf'', ustr ''in/a (2).pdf''] \<and>
   avoid_overwrite [ustr ''in/a.pdf'', ustr ''in/a (2).pdf''] (ustr ''in/b.pdf'') = ustr ''in/b.pdf''"
proof -
  let ?E = "[ustr ''in/a.pdf'', ustr ''in/a (2).pdf'']"
  have s: "splitext (ustr ''in/a.pdf'') = (ustr ''in/a'', ustr ''.pdf'')"
    unfolding splitext_def Let_def by (simp add: ustr_def rfind_def)
  have v: "variant (ustr ''in/a'') (ustr ''.pdf'') 2 = ustr ''in/a (2).pdf''"
    "variant (ustr ''in/a'') (ustr ''.pdf'') 3 = ustr ''in/a (3).pdf''"
    by (simp_all add: variant_def str_nat.simps digit_chr_def ustr_def)
  have e: "avoid_overwrite ?E (ustr ''in/a.pdf'') = ustr ''in/a (3).pdf''"
    unfolding avoid_overwrite_alt s fst_conv snd_conv
    apply (subst avoid_loop.simps, simp add: v)
    apply (subst avoid_loop.simps, simp add: v)
    apply (subst avoid_loop.simps, simp add: v ustr_def)
    done
  have n: "ustr ''in/b.pdf'' \<notin> set ?E" by (simp add: ustr_def)
  show ?thesis
    using avoid_overwrite_first_free [of "ustr ''in/a.pdf''" ?E]
      avoid_overwrite_first_free [of "ustr ''in/b.pdf''" ?E] e n
    by blast
qed

section \<open>The batch\<close>

lemma main_loop_map:
  "main_loop U dp today C in_dir rows fs = rows @ map (row_of U dp today C in_dir) fs"
  by (induction fs arbitrary: rows) simp_all

lemma main_rows_map:
  "main_rows U dp today C in_dir listing =
     map (row_of U dp today C in_dir) (filter (\<lambda>f. ends_with (py_lower U f) (ustr ''.pdf'')) listing)"
  by (simp add: main_rows_def main_loop_map)

lemma process_pdf_status:
  "process_pdf U dp today C path = Inr (d, s, n, st) \<Longrightarrow> st = ustr ''OK'' \<or> st = ustr ''NO_PAGE''"
  unfolding process_pdf_def Let_def
  by (auto split: sum.splits option.splits)

lemma row_of_file: "original_file (row_of U dp today C in_dir f) = f"
  by (simp add: row_of_def split: sum.splits prod.splits)

lemma row_of_error:
  "process_pdf U dp today C (path_join in_dir f) = Inl e \<Longrightarrow>
   status (row_of U dp today C in_dir f) = ustr ''ERROR:'' @ e"
  by (simp add: row_of_def)

lemma row_of_status: "status_ok (status (row_of U dp today C in_dir f))"
proof (cases "process_pdf U dp today C (path_join in_dir f)")
  case (Inl e)
  then show ?thesis by (simp add: row_of_def status_ok_def ustr_def)
next
  case (Inr x)
  then obtain d s n st where "process_pdf U dp today C (path_join in_dir f) = Inr (d, s, n, st)"
    by (cases x) auto
  then show ?thesis
    using process_pdf_status [of U dp today C "path_join in_dir f" d s n st]
    by (auto simp: row_of_def status_ok_def)
qed

text \<open>
  Claim C6.  The batch produces one row for each input document, in order: the rows are
  as many as the \<open>.pdf\<close> files of the listing and carry their names.  When processing a
  document raises with message \<open>e\<close>, its row has status \<open>ERROR:e\<close>, and the other rows are
  produced all the same: each row is the row of its own document.  Every status is \<open>OK\<close>, \<open>NO_PAGE\<close> or starts with \<open>ERROR:\<close>.
\<close>

theorem main_rows_one_per_document:
  "main_rows U dp today C in_dir listing =
     map (row_of U dp today C in_dir) (filter (\<lambda>f. ends_with (py_lower U f) (ustr ''.pdf'')) listing) \<and>
   length (main_rows U dp today C in_dir listing) =
     length (filter (\<lambda>f. ends_with (py_lower U f) (ustr ''.pdf'')) listing) \<and>
   map original_file (main_rows U dp today C in_dir listing) =
     filter (\<lambda>f. ends_with (py_lower U f) (ustr ''.pdf'')) listing \<and>
   (\<forall>r \<in> set (main_rows U dp today C in_dir listing). status_ok (status r)) \<and>
   (\<forall>i e. i < length (filter (\<lambda>f. ends_with (py_lower U f) (ustr ''.pdf'')) listing) \<and>
      process_pdf U dp today C
        (path_join in_dir (filter (\<lambda>f. ends_with (py_lower U f) (ustr ''.pdf'')) listing ! i)) = Inl e \<longrightarrow>
      status (main_rows U dp today C in_dir listing ! i) = ustr ''ERROR:'' @ e)"
proof (intro conjI)
  show "main_rows U dp today C in_dir listing =
     map (row_of U dp today C in_dir) (filter (\<lambda>f. ends_with (py_lower U f) (ustr ''.pdf'')) listing)"
    by (rule main_rows_map)
  show "length (main_rows U dp today C in_dir listing) =
     length (filter (\<lambda>f. ends_with (py_lower U f) (ustr ''.pdf'')) listing)"
    by (simp add: main_rows_map)
  show "map original_file (main_rows U dp today C in_dir listing) =
     filter (\<lambda>f. ends_with (py_lower U f) (ustr ''.pdf'')) listing"
    by (simp add: main_rows_map comp_def row_of_file)
  show "\<forall>r \<in> set (main_rows U dp today C in_dir listing). status_ok (status r)"
    by (auto simp: main_rows_map row_of_status)
  show "\<forall>i e. i < length (filter (\<lambda>f. ends_with (py_lower U f) (ustr ''.pdf'')) listing) \<and>
      process_pdf U dp today C
        (path_join in_dir (filter (\<lambda>f. ends_with (py_lower U f) (ustr ''.pdf'')) listing ! i)) = Inl e \<longrightarrow>
      status (main_rows U dp today C in_dir listing ! i) = ustr ''ERROR:'' @ e"
    by (auto simp: main_rows_map row_of_error)
qed

lemmas batch_eval = py_lower_def lower_char_def ends_with_def path_join_def ascii_upper_def

theorem main_rows_one_per_document_witness:
  "\<forall>U dp today.
     length (main_rows U dp today demo_collaborators (ustr ''in'') demo_listing) = 3 \<and>
     map original_file (main_rows U dp today demo_collaborators (ustr ''in'') demo_listing) =
       [ustr ''a.pdf'', ustr ''b.pdf'', ustr ''C.PDF''] \<and>
     status (main_rows U dp today demo_collaborators (ustr ''in'') demo_listing ! 0) = ustr ''ERROR:boom''"
proof (intro allI)
  fix U :: runtime and dp :: dateparser and today :: date
  have f: "filter (\<lambda>f. ends_with (py_lower U f) (ustr ''.pdf'')) demo_listing =
      [ustr ''a.pdf'', ustr ''b.pdf'', ustr ''C.PDF'']"
    by (simp add: demo_listing_def batch_eval ustr_def)
  have p: "process_pdf U dp today demo_collaborators (path_join (ustr ''in'') (ustr ''a.pdf'')) = Inl (ustr ''boom'')"
    unfolding process_pdf_def by (simp add: demo_collaborators_def batch_eval ustr_def)
  have t: "main_rows U dp today demo_collaborators (ustr ''in'') demo_listing =
     map (row_of U dp today demo_collaborators (ustr ''in''))
       (filter (\<lambda>f. ends_with (py_lower U f) (ustr ''.pdf'')) demo_listing) \<and>
   length (main_rows U dp today demo_collaborators (ustr ''in'') demo_listing) =
     length (filter (\<lambda>f. ends_with (py_lower U f) (ustr ''.pdf'')) demo_listing) \<and>
   map original_file (main_rows U dp today demo_collaborators (ustr ''in'') demo_listing) =
     filter (\<lambda>f. ends_with (py_lower U f) (ustr ''.pdf'')) demo_listing \<and>
   (\<forall>r \<in> set (main_rows U dp today demo_collaborators (ustr ''in'') demo_listing). status_ok (status r)) \<and>
   (\<forall>i e. i < length (filter (\<lambda>f. ends_with (py_lower U f) (ustr ''.pdf'')) demo_listing) \<and>
      process_pdf U dp today demo_collaborators
        (path_join (ustr ''in'') (filter (\<lambda>f. ends_with (py_lower U f) (ustr ''.pdf'')) demo_listing ! i)) = Inl e \<longrightarrow>
      status (main_rows U dp today demo_collaborators (ustr ''in'') demo_listing ! i) = ustr ''ERROR:'' @ e)"
    by (rule main_rows_one_per_document)
  have e: "status (main_rows U dp today demo_collaborators (ustr ''in'') demo_listing ! 0) = ustr ''ERROR:'' @ ustr ''boom''"
    using t p unfolding f by (metis length_Cons nth_Cons_0 zero_less_Suc)
  show "length (main_rows U dp today demo_collaborators (ustr ''in'') demo_listing) = 3 \<and>
     map original_file (main_rows U dp today demo_collaborators (ustr ''in'') demo_listing) =
       [ustr ''a.pdf'', ustr ''b.pdf'', ustr ''C.PDF''] \<and>
     status (main_rows U dp today demo_collaborators (ustr ''in'') demo_listing ! 0) = ustr ''ERROR:boom''"
  proof (intro conjI)
    show "length (main_rows U dp today demo_collaborators (ustr ''in'') demo_listing) = 3"
      using t unfolding f by simp
    show "map original_file (main_rows U dp today demo_collaborators (ustr ''in'') demo_listing) =
       [ustr ''a.pdf'', ustr ''b.pdf'', ustr ''C.PDF'']"
      using t unfolding f by blast
    show "status (main_rows U dp today demo_collaborators (ustr ''in'') demo_listing ! 0) = ustr ''ERROR:boom''"
      using e by (simp add: ustr_def)
  qed
qed

text \<open>The three rows of that batch, evaluated.\<close>

lemma demo_rows:
  "map (\<lambda>r. (original_file r, proposed_name r, status r))
     (main_rows U dateutil_points today demo_collaborators (ustr ''in'') demo_listing) =
   [(ustr ''a.pdf'', [], ustr ''ERROR:boom''),
    (ustr ''b.pdf'', [], ustr ''NO_PAGE''),
    (ustr ''C.PDF'', ustr ''0000-00-00 Neznamy-dodavatel Bez-cisla.pdf'', ustr ''OK'')]"
proof -
  have f: "filter (\<lambda>f. ends_with (py_lower U f) (ustr ''.pdf'')) demo_listing =
      [ustr ''a.pdf'', ustr ''b.pdf'', ustr ''C.PDF'']"
    by (simp add: demo_listing_def batch_eval ustr_def)
  have d: "extract_date U dateutil_points today [] = None"
    unfolding extract_date_def find_first_by_hints_def Let_def
    by (simp add: hint_eval date_run class_eval rx_run dateutil_points_def)
  have i: "extract_invoice_no U [] = None"
    by (simp add: invoice_eval class_eval rx_run)
  have s: "extract_supplier U [] = None"
    unfolding extract_supplier_def find_first_by_hints_def Let_def
    by (simp add: hint_eval SUPPLIER_HINT_WORDS_def domain_rx_def class_eval rx_run)
  have n: "build_new_name U (Some []) (Some []) (Some []) = ustr ''0000-00-00 Neznamy-dodavatel Bez-cisla.pdf''"
    unfolding build_new_name_def sanitize_filename_def Let_def
    by (simp add: or_default_def unidecode_def replace_char_def spaces_rx_def class_eval rx_run)
  have a: "row_of U dateutil_points today demo_collaborators (ustr ''in'') (ustr ''a.pdf'') =
      \<lparr>original_file = ustr ''a.pdf'', r_date = Some [], r_supplier = Some [], r_invoice_no = Some [],
       proposed_name = [], status = ustr ''ERROR:boom''\<rparr>"
    unfolding row_of_def process_pdf_def by (simp add: demo_collaborators_def batch_eval ustr_def)
  have b: "row_of U dateutil_points today demo_collaborators (ustr ''in'') (ustr ''b.pdf'') =
      \<lparr>original_file = ustr ''b.pdf'', r_date = None, r_supplier = None, r_invoice_no = None,
       proposed_name = [], status = ustr ''NO_PAGE''\<rparr>"
    unfolding row_of_def process_pdf_def by (simp add: demo_collaborators_def batch_eval ustr_def)
  have c: "row_of U dateutil_points today demo_collaborators (ustr ''in'') (ustr ''C.PDF'') =
      \<lparr>original_file = ustr ''C.PDF'', r_date = Some [], r_supplier = Some [], r_invoice_no = Some [],
       proposed_name = ustr ''0000-00-00 Neznamy-dodavatel Bez-cisla.pdf'', status = ustr ''OK''\<rparr>"
    unfolding row_of_def process_pdf_def Let_def ocr_image_def
    by (simp add: demo_collaborators_def batch_eval d i s n or_empty_def) (simp add: ustr_def)
  show ?thesis
    by (simp add: main_rows_map f a b c)
qed

end
